theory Spec2Isabelle
  imports Main
begin

section \<open>Wire protocol (client.c, clientAi.c, clientOp.c)\<close>

text \<open>
  A byte of a C buffer is a \<open>char\<close> (eight bits); \<open>of_char\<close> reads it as the
  \<open>unsigned char\<close> the sources compare against 27, 32 and 126. The frame kinds are the
  values of \<open>enum MessageType\<close>.
\<close>

type_synonym byte = char

definition LOGIN :: int where "LOGIN = 0"
definition LOGOUT :: int where "LOGOUT = 1"
definition MESSAGE_SENT :: int where "MESSAGE_SENT = 2"
definition MESSAGE_RECV :: int where "MESSAGE_RECV = 10"
definition DISCONNECT :: int where "DISCONNECT = 12"
definition SYSTEM :: int where "SYSTEM = 13"

definition NUL :: byte where "NUL = CHR 0x00"

text \<open>
  The C string that starts at a pointer: the bytes before the first NUL. A \<open>const char *\<close>
  argument is modelled by the bytes that lie at the pointer, \<open>None\<close> for the NULL pointer.
\<close>

definition cstr :: "byte list \<Rightarrow> string" where
  "cstr bs = takeWhile (\<lambda>c. c \<noteq> NUL) bs"

text \<open>
  \<open>strncpy(dst, src ? src : "", sizeof(dst)-1); dst[sizeof(dst)-1] = 0\<close>: the C string
  left in a destination array of \<open>n\<close> bytes.
\<close>

definition strncpy_field :: "nat \<Rightarrow> byte list option \<Rightarrow> string" where
  "strncpy_field n src = take (n - 1) (cstr (case src of None \<Rightarrow> [] | Some bs \<Rightarrow> bs))"

section \<open>The display buffer of the terminal UI (client.c)\<close>

definition TUI_MAX_LINES :: nat where "TUI_MAX_LINES = 600"
definition HIST_MAX :: nat where "HIST_MAX = 64"

record tui_line_t =
  line_timebuf :: string
  line_username :: string
  line_text :: string
  line_kind :: int

datatype ui_mode_t = UI_SPARTAN | UI_GRAVEMIND

text \<open>
  The globals of client.c that the claims speak about. The array \<open>g_lines\<close> is a function
  from indices to lines, of which the indices below \<open>TUI_MAX_LINES\<close> exist in the source;
  \<open>g_input\<close> holds the \<open>g_input_len\<close> bytes before the terminator. \<open>sock_out\<close> is the
  sequence of buffers handed to \<open>write\<close> on the socket, in order; \<open>wr_script\<close> scripts
  the environment: whether each coming \<open>write\<close> returns a positive count (an exhausted
  script means success). \<open>g_scroll\<close> and the arithmetic of the renderer are C \<open>int\<close>s;
  the model computes in the integers, which is the C result as long as no sum leaves the
  range of \<open>int\<close> (signed overflow is undefined in C).
\<close>

text \<open>
  What the non-TUI paths write to the terminal: one value per printed line. The colour codes
  and the highlighting of mentions inside a message are not part of the model.
\<close>

datatype print_t =
  PrintMsg string string string
  | PrintSystem string
  | PrintDisconnect string
  | PrintInfo string
  | PrintError string

record client_state =
  g_lines :: "nat \<Rightarrow> tui_line_t"
  g_line_count :: nat
  g_scroll :: int
  g_tui_dirty :: bool
  g_input :: string
  g_send_hist :: "string list"
  g_ui_mode :: ui_mode_t
  g_tui_enabled :: bool
  g_show_start_menu :: bool
  running :: bool
  settings_username :: string
  sock_out :: "byte list list"
  wr_script :: "bool list"
  printed :: "print_t list"

text \<open>The three \<open>strncpy\<close> calls and the assignment of \<open>kind\<close>, the same in both branches.\<close>

definition fill_line ::
  "byte list option \<Rightarrow> byte list option \<Rightarrow> byte list option \<Rightarrow> int \<Rightarrow> tui_line_t" where
  "fill_line timebuf user txt kind =
     \<lparr>line_timebuf = strncpy_field 32 timebuf,
      line_username = strncpy_field 32 user,
      line_text = strncpy_field 1024 txt,
      line_kind = kind\<rparr>"

text \<open>\<open>memmove(&g_lines[0], &g_lines[1], sizeof(g_lines[0]) * (TUI_MAX_LINES-1))\<close>.\<close>

definition memmove_up :: "(nat \<Rightarrow> tui_line_t) \<Rightarrow> nat \<Rightarrow> tui_line_t" where
  "memmove_up ls = (\<lambda>i. if i < TUI_MAX_LINES - 1 then ls (i + 1) else ls i)"

definition tui_add_line_locked ::
  "byte list option \<Rightarrow> byte list option \<Rightarrow> byte list option \<Rightarrow> int \<Rightarrow>
   client_state \<Rightarrow> client_state" where
  "tui_add_line_locked timebuf user txt kind st =
     (if g_line_count st < TUI_MAX_LINES
      then st\<lparr>g_lines := (g_lines st)(g_line_count st := fill_line timebuf user txt kind),
              g_line_count := g_line_count st + 1\<rparr>
      else st\<lparr>g_lines := (memmove_up (g_lines st))
                 (TUI_MAX_LINES - 1 := fill_line timebuf user txt kind)\<rparr>)"

definition tui_set_dirty :: "client_state \<Rightarrow> client_state" where
  "tui_set_dirty st = st\<lparr>g_tui_dirty := True\<rparr>"

definition tui_add_line ::
  "byte list option \<Rightarrow> byte list option \<Rightarrow> byte list option \<Rightarrow> int \<Rightarrow>
   client_state \<Rightarrow> client_state" where
  "tui_add_line timebuf user txt kind st =
     (let st1 = tui_add_line_locked timebuf user txt kind st;
          st2 = (if g_scroll st1 > 0 then st1\<lparr>g_scroll := g_scroll st1 + 1\<rparr> else st1)
      in tui_set_dirty st2)"

text \<open>The stored lines, oldest first: \<open>g_lines[0 .. g_line_count)\<close>.\<close>

definition stored_lines :: "client_state \<Rightarrow> tui_line_t list" where
  "stored_lines st = map (g_lines st) [0..<g_line_count st]"

text \<open>One call of \<open>tui_add_line\<close> per argument tuple, in order.\<close>

type_synonym line_args = "byte list option \<times> byte list option \<times> byte list option \<times> int"

fun tui_add_lines :: "line_args list \<Rightarrow> client_state \<Rightarrow> client_state" where
  "tui_add_lines [] st = st"
| "tui_add_lines ((timebuf, user, txt, kind) # rest) st =
     tui_add_lines rest (tui_add_line timebuf user txt kind st)"

definition line_of_args :: "line_args \<Rightarrow> tui_line_t" where
  "line_of_args a = (case a of (timebuf, user, txt, kind) \<Rightarrow> fill_line timebuf user txt kind)"

text \<open>The statics of client.c at program start (zero-initialised).\<close>

definition zero_line :: tui_line_t where
  "zero_line = \<lparr>line_timebuf = [], line_username = [], line_text = [], line_kind = 0\<rparr>"

definition init_state :: client_state where
  "init_state =
     \<lparr>g_lines = (\<lambda>_. zero_line), g_line_count = 0, g_scroll = 0, g_tui_dirty = False,
      g_input = [], g_send_hist = [], g_ui_mode = UI_SPARTAN, g_tui_enabled = True,
      g_show_start_menu = True, running = True, settings_username = ''spartan'', sock_out = [], wr_script = [],
      printed = []\<rparr>"

section \<open>The visible window of the renderer (client.c, tui_render)\<close>

text \<open>
  The message-area height: \<open>rows\<close> is raised to 12, then \<open>msg_h = rows - 6\<close>; the test
  \<open>msg_h < 5\<close> that follows in the source can never succeed, so the height is at least 6
  (\<open>tui_msg_h_at_least_6\<close>).
\<close>

definition tui_msg_h :: "int \<Rightarrow> int" where
  "tui_msg_h rows =
     (let rows1 = (if rows < 12 then 12 else rows);
          msg_h = rows1 - 6
      in if msg_h < 5 then 5 else msg_h)"

text \<open>
  \<open>start\<close> and \<open>end\<close> of the window, from \<open>tot\<close> (the source's \<open>total = g_line_count\<close>), \<open>msg_h\<close> and
  \<open>g_scroll\<close>, in the order of the source: \<open>start\<close> is computed and clamped first,
  \<open>end\<close> is \<open>start + msg_h\<close>, clamped to \<open>total\<close>.
\<close>

definition tui_window :: "int \<Rightarrow> int \<Rightarrow> int \<Rightarrow> int \<times> int" where
  "tui_window tot msg_h scroll =
     (let start0 = tot - msg_h - scroll;
          start = (if start0 < 0 then 0 else start0);
          end0 = start + msg_h;
          endi = (if end0 > tot then tot else end0)
      in (start, endi))"

text \<open>
  The loop \<open>for (int i = start, r = 0; r < msg_h; r++)\<close>: for each of the remaining rows,
  the index of the line painted there (\<open>i < end\<close>, then \<open>i++\<close>) or \<open>None\<close> for a blank row.
\<close>

fun paint_rows :: "nat \<Rightarrow> nat \<Rightarrow> nat \<Rightarrow> nat option list" where
  "paint_rows i endi 0 = []"
| "paint_rows i endi (Suc r) =
     (if i < endi then Some i # paint_rows (i + 1) endi r
      else None # paint_rows i endi r)"

definition painted_indices :: "int \<Rightarrow> int \<Rightarrow> int \<Rightarrow> nat list" where
  "painted_indices tot msg_h scroll =
     (case tui_window tot msg_h scroll of
        (start, endi) \<Rightarrow> List.map_filter (\<lambda>x. x) (paint_rows (nat start) (nat endi) (nat msg_h)))"

text \<open>The lines \<open>tui_render\<close> paints for a message area of \<open>msg_h\<close> rows, top to bottom.\<close>

definition painted_lines :: "client_state \<Rightarrow> int \<Rightarrow> tui_line_t list" where
  "painted_lines st msg_h =
     map (g_lines st) (painted_indices (int (g_line_count st)) msg_h (g_scroll st))"

text \<open>
  The window in the words of the specification: \<open>[len-height-scroll, len-scroll)\<close> with
  both ends clamped to \<open>[0, len]\<close>.
\<close>

definition clamp_idx :: "int \<Rightarrow> int \<Rightarrow> nat" where
  "clamp_idx len x = nat (max 0 (min len x))"

definition spec_visible_window :: "int \<Rightarrow> int \<Rightarrow> int \<Rightarrow> nat list" where
  "spec_visible_window len height scroll =
     [clamp_idx len (len - height - scroll) ..< clamp_idx len (len - scroll)]"

text \<open>
  A sequence of \<open>n\<close> system lines, used to run the buffer on concrete input: the text of
  line \<open>i\<close> is \<open>i\<close> in three decimal digits.
\<close>

definition digits3 :: "nat \<Rightarrow> byte list" where
  "digits3 i = [char_of (48 + i div 100 mod 10), char_of (48 + i div 10 mod 10),
                char_of (48 + i mod 10)]"

definition numbered_lines :: "nat \<Rightarrow> line_args list" where
  "numbered_lines n = map (\<lambda>i. (None, None, Some (digits3 i), SYSTEM)) [0..<n]"

text \<open>Three stored lines, the view scrolled up by one line.\<close>

definition three_lines :: client_state where
  "three_lines = (tui_add_lines (numbered_lines 3) init_state)\<lparr>g_scroll := 1\<rparr>"

text \<open>
  Ten stored lines, the view scrolled up by eight lines: past the oldest line for a window
  of six rows.
\<close>

definition ten_lines :: client_state where
  "ten_lines = (tui_add_lines (numbered_lines 10) init_state)\<lparr>g_scroll := 8\<rparr>"

text \<open>
  A full buffer of 600 lines, the view scrolled up by 594 lines: a window of six rows then
  starts at the oldest line.
\<close>

definition full_lines :: client_state where
  "full_lines = (tui_add_lines (numbered_lines 600) init_state)\<lparr>g_scroll := 594\<rparr>"

section \<open>Eviction in the display buffer\<close>

lemma stored_lines_add_room:
  assumes "g_line_count st < TUI_MAX_LINES"
  shows "stored_lines (tui_add_line timebuf user txt kind st) =
         stored_lines st @ [fill_line timebuf user txt kind]"
  using assms
  by (simp add: stored_lines_def tui_add_line_def tui_add_line_locked_def tui_set_dirty_def
      Let_def)

lemma count_add_room:
  assumes "g_line_count st < TUI_MAX_LINES"
  shows "g_line_count (tui_add_line timebuf user txt kind st) = g_line_count st + 1"
  using assms
  by (simp add: tui_add_line_def tui_add_line_locked_def tui_set_dirty_def Let_def)

lemma count_add_full:
  assumes "\<not> g_line_count st < TUI_MAX_LINES"
  shows "g_line_count (tui_add_line timebuf user txt kind st) = g_line_count st"
  using assms
  by (simp add: tui_add_line_def tui_add_line_locked_def tui_set_dirty_def Let_def)

lemma stored_lines_add_full:
  assumes "g_line_count st = TUI_MAX_LINES"
  shows "stored_lines (tui_add_line timebuf user txt kind st) =
         tl (stored_lines st) @ [fill_line timebuf user txt kind]"
proof -
  let ?st' = "tui_add_line timebuf user txt kind st"
  let ?L = "fill_line timebuf user txt kind"
  have cnt: "g_line_count ?st' = TUI_MAX_LINES"
    using assms count_add_full [of st] by simp
  have gl: "g_lines ?st' = (memmove_up (g_lines st))(TUI_MAX_LINES - 1 := ?L)"
    using assms
    by (simp add: tui_add_line_def tui_add_line_locked_def tui_set_dirty_def Let_def)
  have len: "length (stored_lines ?st') = length (tl (stored_lines st) @ [?L])"
    using assms cnt by (simp add: stored_lines_def TUI_MAX_LINES_def)
  show ?thesis
  proof (rule nth_equalityI [OF len])
    fix i
    assume "i < length (stored_lines ?st')"
    then have i: "i < TUI_MAX_LINES" using cnt by (simp add: stored_lines_def)
    show "stored_lines ?st' ! i = (tl (stored_lines st) @ [?L]) ! i"
    proof (cases "i < TUI_MAX_LINES - 1")
      case True
      then show ?thesis
        using assms cnt gl i
        by (simp add: stored_lines_def memmove_up_def nth_append nth_tl)
    next
      case False
      then have "i = TUI_MAX_LINES - 1" using i by simp
      then show ?thesis
        using assms cnt gl i
        by (simp add: stored_lines_def nth_append TUI_MAX_LINES_def)
    qed
  qed
qed

lemma drop_Suc_append_tl:
  assumes "ys \<noteq> []"
  shows "drop (Suc n) (ys @ zs) = drop n (tl ys @ zs)"
  using assms by (cases ys) simp_all

lemma tui_add_lines_stored:
  assumes "g_line_count st \<le> TUI_MAX_LINES"
  shows "g_line_count (tui_add_lines xs st) = min (g_line_count st + length xs) TUI_MAX_LINES \<and>
         stored_lines (tui_add_lines xs st) =
           drop (g_line_count st + length xs - TUI_MAX_LINES)
             (stored_lines st @ map line_of_args xs)"
  using assms
proof (induction xs arbitrary: st)
  case Nil
  then show ?case by (simp add: stored_lines_def)
next
  case (Cons a xs)
  obtain timebuf user body kind where a: "a = (timebuf, user, body, kind)"
    by (cases a) auto
  let ?st' = "tui_add_line timebuf user body kind st"
  have len: "length (stored_lines st) = g_line_count st"
    by (simp add: stored_lines_def)
  show ?case
  proof (cases "g_line_count st < TUI_MAX_LINES")
    case True
    have c: "g_line_count ?st' = g_line_count st + 1"
      using True by (rule count_add_room)
    have s: "stored_lines ?st' = stored_lines st @ [line_of_args a]"
      using True by (simp add: stored_lines_add_room a line_of_args_def)
    have "g_line_count ?st' \<le> TUI_MAX_LINES" using True c by simp
    from Cons.IH [OF this] show ?thesis
      using c s a by simp
  next
    case False
    then have full: "g_line_count st = TUI_MAX_LINES" using Cons.prems by simp
    have c: "g_line_count ?st' = TUI_MAX_LINES"
      using full count_add_full [of st] by simp
    have s: "stored_lines ?st' = tl (stored_lines st) @ [line_of_args a]"
      using full by (simp add: stored_lines_add_full a line_of_args_def)
    have "g_line_count ?st' \<le> TUI_MAX_LINES" using c by simp
    from Cons.IH [OF this]
    have ih: "g_line_count (tui_add_lines xs ?st') = TUI_MAX_LINES \<and>
              stored_lines (tui_add_lines xs ?st') =
                drop (length xs) (tl (stored_lines st) @ line_of_args a # map line_of_args xs)"
      using c s by simp
    have ne: "stored_lines st \<noteq> []"
      using len full by (auto simp: TUI_MAX_LINES_def)
    have "drop (g_line_count st + length (a # xs) - TUI_MAX_LINES)
            (stored_lines st @ map line_of_args (a # xs)) =
          drop (Suc (length xs)) (stored_lines st @ line_of_args a # map line_of_args xs)"
      using full by simp
    also have "\<dots> = drop (length xs) (tl (stored_lines st) @ line_of_args a # map line_of_args xs)"
      using ne by (rule drop_Suc_append_tl)
    finally show ?thesis
      using ih a full by simp
  qed
qed

lemma stored_lines_from_init:
  assumes "length xs \<le> TUI_MAX_LINES"
  shows "stored_lines (tui_add_lines xs init_state) = map line_of_args xs"
proof -
  have z: "g_line_count init_state \<le> TUI_MAX_LINES" "stored_lines init_state = []"
    "g_line_count init_state = 0"
    by (simp_all add: init_state_def stored_lines_def)
  show ?thesis
    using tui_add_lines_stored [OF z(1), of xs] z(2,3) assms by simp
qed

lemma stored_lines_running_upd [simp]:
  "stored_lines (st\<lparr>running := b\<rparr>) = stored_lines st"
  by (simp add: stored_lines_def)

lemma count_from_init:
  "g_line_count (tui_add_lines xs init_state) = min (length xs) TUI_MAX_LINES"
  using tui_add_lines_stored [of init_state xs] by (simp add: init_state_def)

lemma g_lines_from_init:
  assumes "length xs \<le> TUI_MAX_LINES" "i < length xs"
  shows "g_lines (tui_add_lines xs init_state) i = line_of_args (xs ! i)"
proof -
  have c: "g_line_count (tui_add_lines xs init_state) = length xs"
    using assms(1) by (simp add: count_from_init)
  have "stored_lines (tui_add_lines xs init_state) ! i = line_of_args (xs ! i)"
    using assms by (simp add: stored_lines_from_init)
  then show ?thesis
    using assms(2) c by (simp add: stored_lines_def)
qed

lemma line_of_args_explicit:
  "line_of_args =
     (\<lambda>(timebuf, user, txt, kind).
        \<lparr>line_timebuf =
           take 31 (takeWhile (\<lambda>c. c \<noteq> CHR 0x00) (case timebuf of None \<Rightarrow> [] | Some s \<Rightarrow> s)),
         line_username =
           take 31 (takeWhile (\<lambda>c. c \<noteq> CHR 0x00) (case user of None \<Rightarrow> [] | Some s \<Rightarrow> s)),
         line_text =
           take 1023 (takeWhile (\<lambda>c. c \<noteq> CHR 0x00) (case txt of None \<Rightarrow> [] | Some s \<Rightarrow> s)),
         line_kind = kind\<rparr>)"
  by (auto simp add: fun_eq_iff line_of_args_def fill_line_def strncpy_field_def cstr_def NUL_def)

lemma digit_not_NUL: "char_of (48 + j mod 10 :: nat) \<noteq> CHR 0x00"
proof
  assume "char_of (48 + j mod 10) = CHR 0x00"
  then have "of_char (char_of (48 + j mod 10 :: nat)) = (of_char (CHR 0x00) :: nat)"
    by simp
  then have m: "(48 + j mod 10) mod 256 = (0::nat)"
    by simp
  have "j mod 10 < 10" by simp
  then have "48 + j mod 10 < 256" by linarith
  then have "(48 + j mod 10) mod 256 = 48 + j mod 10" by (rule mod_less)
  then show False using m by simp
qed

lemma numbered_line_stored:
  "line_of_args (None, None, Some (digits3 i), SYSTEM) =
     \<lparr>line_timebuf = [], line_username = [], line_text = digits3 i, line_kind = SYSTEM\<rparr>"
  by (simp add: line_of_args_def fill_line_def strncpy_field_def cstr_def NUL_def digits3_def
      digit_not_NUL)

lemma length_numbered_lines: "length (numbered_lines n) = n"
  by (simp add: numbered_lines_def)

lemma numbered_lines_nth:
  "i < n \<Longrightarrow> numbered_lines n ! i = (None, None, Some (digits3 i), SYSTEM)"
  by (simp add: numbered_lines_def)

lemma numbered_line_at:
  "i < n \<Longrightarrow> line_of_args (numbered_lines n ! i) =
     \<lparr>line_timebuf = [], line_username = [], line_text = digits3 i, line_kind = SYSTEM\<rparr>"
  by (simp only: numbered_lines_nth numbered_line_stored)

lemma digits3_values:
  "digits3 0 = ''000''" "digits3 1 = ''001''" "digits3 2 = ''002''" "digits3 3 = ''003''"
  "digits3 4 = ''004''" "digits3 5 = ''005''" "digits3 6 = ''006''" "digits3 600 = ''600''" "digits3 (Suc 0) = ''001''"
  "digits3 (Suc (Suc 0)) = ''002''"
  by code_simp+

text \<open>
  Claim C6. Appending \<open>C + k\<close> lines to the empty display buffer of capacity
  \<open>C = TUI_MAX_LINES = 600\<close> leaves exactly the last \<open>C\<close> appended lines, oldest survivor
  first: the stored line \<open>i\<close> holds the time label, the user name and the text of the
  appended line \<open>k + i\<close>, each up to its first NUL byte and cut to the 31, 31 and 1023
  bytes the fields can hold, and its kind. After every append (every prefix of the
  sequence) the buffer holds at most \<open>C\<close> lines.
\<close>

theorem eviction_keeps_last_capacity_lines:
  assumes "length xs = TUI_MAX_LINES + k"
  shows "stored_lines (tui_add_lines xs init_state) =
           map (\<lambda>(timebuf, user, txt, kind).
                  \<lparr>line_timebuf =
                     take 31 (takeWhile (\<lambda>c. c \<noteq> CHR 0x00)
                       (case timebuf of None \<Rightarrow> [] | Some s \<Rightarrow> s)),
                   line_username =
                     take 31 (takeWhile (\<lambda>c. c \<noteq> CHR 0x00)
                       (case user of None \<Rightarrow> [] | Some s \<Rightarrow> s)),
                   line_text =
                     take 1023 (takeWhile (\<lambda>c. c \<noteq> CHR 0x00)
                       (case txt of None \<Rightarrow> [] | Some s \<Rightarrow> s)),
                   line_kind = kind\<rparr>) (drop k xs) \<and>
         length (stored_lines (tui_add_lines xs init_state)) = TUI_MAX_LINES \<and>
         (\<forall>n. g_line_count (tui_add_lines (take n xs) init_state) \<le> TUI_MAX_LINES)"
proof -
  have z: "g_line_count init_state \<le> TUI_MAX_LINES" "stored_lines init_state = []"
    "g_line_count init_state = 0"
    by (simp_all add: init_state_def stored_lines_def)
  have a: "stored_lines (tui_add_lines xs init_state) = map line_of_args (drop k xs)"
    using tui_add_lines_stored [OF z(1), of xs] assms z by (simp add: drop_map)
  have l: "length (stored_lines (tui_add_lines xs init_state)) = TUI_MAX_LINES"
    unfolding a using assms by simp
  have b: "g_line_count (tui_add_lines (take n xs) init_state) \<le> TUI_MAX_LINES" for n
    using tui_add_lines_stored [OF z(1), of "take n xs"] by simp
  show ?thesis
    using a l b unfolding line_of_args_explicit by blast
qed

theorem eviction_keeps_last_capacity_lines_witness:
  "length (numbered_lines 601) = TUI_MAX_LINES + 1 \<and>
   length (stored_lines (tui_add_lines (numbered_lines 601) init_state)) = 600 \<and>
   stored_lines (tui_add_lines (numbered_lines 601) init_state) ! 0 =
     \<lparr>line_timebuf = [], line_username = [], line_text = ''001'', line_kind = SYSTEM\<rparr> \<and>
   stored_lines (tui_add_lines (numbered_lines 601) init_state) ! 599 =
     \<lparr>line_timebuf = [], line_username = [], line_text = ''600'', line_kind = SYSTEM\<rparr>"
proof -
  have h: "length (numbered_lines 601) = TUI_MAX_LINES + 1"
    by (simp add: TUI_MAX_LINES_def length_numbered_lines)
  from eviction_keeps_last_capacity_lines [OF h]
  have s: "stored_lines (tui_add_lines (numbered_lines 601) init_state) =
             map line_of_args (drop 1 (numbered_lines 601))"
    and l: "length (stored_lines (tui_add_lines (numbered_lines 601) init_state)) = TUI_MAX_LINES"
    unfolding line_of_args_explicit by blast+
  have n: "drop 1 (numbered_lines 601) ! 0 = numbered_lines 601 ! 1"
    "drop 1 (numbered_lines 601) ! 599 = numbered_lines 601 ! 600"
    by (simp_all add: length_numbered_lines)
  have a: "stored_lines (tui_add_lines (numbered_lines 601) init_state) ! 0 =
             \<lparr>line_timebuf = [], line_username = [], line_text = ''001'', line_kind = SYSTEM\<rparr>"
    unfolding s
    by (simp add: length_numbered_lines n numbered_line_at digits3_values)
  have b: "stored_lines (tui_add_lines (numbered_lines 601) init_state) ! 599 =
             \<lparr>line_timebuf = [], line_username = [], line_text = ''600'', line_kind = SYSTEM\<rparr>"
    unfolding s
    by (simp add: length_numbered_lines n numbered_line_at digits3_values)
  show ?thesis
    using h l a b by (simp add: TUI_MAX_LINES_def)
qed

section \<open>The window the renderer paints\<close>

lemma paint_rows_indices:
  "List.map_filter (\<lambda>x. x) (paint_rows i e r) = [i..<min e (i + r)]"
proof (induction r arbitrary: i)
  case 0
  then show ?case by (simp add: List.map_filter_simps)
next
  case (Suc r)
  show ?case
  proof (cases "i < e")
    case True
    then have "[i..<min e (i + Suc r)] = i # [i + 1..<min e (i + 1 + r)]"
      by (simp add: upt_conv_Cons)
    then show ?thesis using True Suc.IH [of "i + 1"] by (simp add: List.map_filter_simps)
  next
    case False
    then show ?thesis using Suc.IH [of i] by (simp add: List.map_filter_simps)
  qed
qed

lemma tui_msg_h_at_least_6: "6 \<le> tui_msg_h rows"
  by (simp add: tui_msg_h_def Let_def)

lemma tui_window_min_max:
  "tui_window tot h s = (max 0 (tot - h - s), min tot (max 0 (tot - h - s) + h))"
  by (simp add: tui_window_def Let_def min_def max_def)

lemma painted_indices_interval:
  assumes "0 \<le> h"
  shows "painted_indices (int n) h s =
         [nat (max 0 (int n - h - s)) ..< nat (min (int n) (max 0 (int n - h - s) + h))]"
proof -
  define start where "start = max 0 (int n - h - s)"
  define endi where "endi = min (int n) (start + h)"
  have "0 \<le> start" "endi \<le> start + h"
    by (simp_all add: start_def endi_def)
  then have m: "min (nat endi) (nat start + nat h) = nat endi"
    using assms by linarith
  have "painted_indices (int n) h s = [nat start..<min (nat endi) (nat start + nat h)]"
    by (simp add: painted_indices_def tui_window_min_max paint_rows_indices start_def endi_def)
  then show ?thesis
    unfolding m by (simp add: start_def endi_def)
qed

lemma painted_indices_spec:
  assumes "0 \<le> s" "1 \<le> h" "0 \<le> int n - h - s \<or> s = 0"
  shows "painted_indices (int n) h s = spec_visible_window (int n) h s"
  using assms
  by (auto simp add: painted_indices_interval spec_visible_window_def clamp_idx_def min_def max_def)


text \<open>
  Claim C2, as the specification states it, fails: with ten lines, the six message rows of a
  12-row terminal and a scroll offset of eight (eight presses of the up arrow),
  \<open>tui_render\<close> paints the lines 0 to 5, while \<open>[len-h-s, len-s)\<close> clamped to \<open>[0, len)\<close>
  is the lines 0 and 1.
\<close>

theorem painted_window_not_spec_interval:
  "tui_msg_h 12 = 6 \<and>
   painted_indices 10 (tui_msg_h 12) 8 = [0, 1, 2, 3, 4, 5] \<and>
   spec_visible_window 10 (tui_msg_h 12) 8 = [0, 1]"
  by code_simp

text \<open>
  Claim C2, amended. For every buffer length \<open>n\<close>, scroll offset \<open>s \<ge> 0\<close> and height
  \<open>h \<ge> 1\<close>, the renderer paints exactly the indices from \<open>start = max 0 (n - h - s)\<close>
  up to \<open>min n (start + h)\<close>, in buffer order and at most \<open>h\<close> of them; this is the
  interval of the specification whenever \<open>n - h - s \<ge> 0\<close> or \<open>s = 0\<close>.
\<close>

theorem painted_window_start_then_height:
  assumes "0 \<le> s" and "1 \<le> h"
  shows "painted_indices (int n) h s =
           [nat (max 0 (int n - h - s)) ..< nat (min (int n) (max 0 (int n - h - s) + h))] \<and>
         length (painted_indices (int n) h s) \<le> nat h \<and>
         ((0 \<le> int n - h - s \<or> s = 0) \<longrightarrow>
            painted_indices (int n) h s = spec_visible_window (int n) h s)"
proof -
  have h0: "0 \<le> h" using assms by simp
  have a: "painted_indices (int n) h s =
           [nat (max 0 (int n - h - s)) ..< nat (min (int n) (max 0 (int n - h - s) + h))]"
    using h0 by (rule painted_indices_interval)
  have "nat (min (int n) (max 0 (int n - h - s) + h)) - nat (max 0 (int n - h - s)) \<le> nat h"
    by linarith
  then have b: "length (painted_indices (int n) h s) \<le> nat h"
    unfolding a by simp
  show ?thesis
    using a b assms painted_indices_spec [of s h n] by blast
qed

theorem painted_window_start_then_height_witness:
  "(0::int) \<le> 2 \<and> (1::int) \<le> tui_msg_h 12 \<and> 0 \<le> int 10 - tui_msg_h 12 - 2 \<and>
   painted_indices (int 10) (tui_msg_h 12) 2 = [2, 3, 4, 5, 6, 7] \<and>
   painted_indices (int 10) (tui_msg_h 12) 2 = spec_visible_window (int 10) (tui_msg_h 12) 2"
proof -
  have m: "tui_msg_h 12 = 6"
    by (simp add: tui_msg_h_def)
  have h: "(0::int) \<le> 2" "(1::int) \<le> tui_msg_h 12"
    "0 \<le> int 10 - tui_msg_h 12 - 2 \<or> (2::int) = 0"
    by (simp_all add: m)
  from painted_window_start_then_height [OF h(1) h(2), of 10]
  have "painted_indices (int 10) (tui_msg_h 12) 2 = spec_visible_window (int 10) (tui_msg_h 12) 2"
    using h(3) by blast
  moreover have "painted_indices (int 10) 6 2 = [2, 3, 4, 5, 6, 7]"
    by code_simp
  ultimately show ?thesis by (simp add: m)
qed

section \<open>Appending while the view is scrolled\<close>

lemma tui_add_line_scroll:
  "g_scroll (tui_add_line tb u t k st) = (if 0 < g_scroll st then g_scroll st + 1 else g_scroll st)"
  by (simp add: tui_add_line_def tui_add_line_locked_def tui_set_dirty_def Let_def)

lemma tui_add_line_count:
  "g_line_count (tui_add_line tb u t k st) =
     (if g_line_count st < TUI_MAX_LINES then g_line_count st + 1 else g_line_count st)"
  by (simp add: tui_add_line_def tui_add_line_locked_def tui_set_dirty_def Let_def)

lemma tui_add_line_lines:
  "g_lines (tui_add_line tb u t k st) =
     (if g_line_count st < TUI_MAX_LINES
      then (g_lines st)(g_line_count st := fill_line tb u t k)
      else (memmove_up (g_lines st))(TUI_MAX_LINES - 1 := fill_line tb u t k))"
  by (simp add: tui_add_line_def tui_add_line_locked_def tui_set_dirty_def Let_def)

lemma painted_indices_full_window:
  assumes "0 \<le> h" "0 \<le> s" "0 \<le> int n - h - s"
  shows "painted_indices (int n) h s = [nat (int n - h - s)..<nat (int n - s)]"
proof -
  have "max 0 (int n - h - s) = int n - h - s"
    "min (int n) (max 0 (int n - h - s) + h) = int n - s"
    using assms by linarith+
  then show ?thesis
    using painted_indices_interval [OF assms(1), of n s] by simp
qed

lemma window_kept_room:
  assumes s: "0 < g_scroll st" and h: "1 \<le> h"
    and room: "g_line_count st < TUI_MAX_LINES"
    and full: "h \<le> int (g_line_count st)"
  shows "painted_lines (tui_add_line tb u t k st) h = painted_lines st h"
proof -
  let ?n = "g_line_count st"
  let ?a = "nat (max 0 (int ?n - h - g_scroll st))"
  let ?b = "nat (min (int ?n) (max 0 (int ?n - h - g_scroll st) + h))"
  have h0: "0 \<le> h" using h by simp
  have old: "painted_indices (int ?n) h (g_scroll st) = [?a..<?b]"
    using h0 by (rule painted_indices_interval)
  have e: "int (?n + 1) - h - (g_scroll st + 1) = int ?n - h - g_scroll st"
    by simp
  have "min (int (?n + 1)) (max 0 (int ?n - h - g_scroll st) + h) =
        min (int ?n) (max 0 (int ?n - h - g_scroll st) + h)"
    using s full by linarith
  then have new: "painted_indices (int (?n + 1)) h (g_scroll st + 1) = [?a..<?b]"
    using painted_indices_interval [OF h0, of "?n + 1" "g_scroll st + 1"] unfolding e by simp
  have "?b \<le> ?n" by linarith
  then have "map ((g_lines st)(?n := fill_line tb u t k)) [?a..<?b] = map (g_lines st) [?a..<?b]"
    by (intro map_cong) auto
  then show ?thesis
    using old new s room
    by (simp add: painted_lines_def tui_add_line_scroll tui_add_line_count tui_add_line_lines)
qed

lemma window_grows_short:
  assumes s: "0 < g_scroll st" and h: "1 \<le> h"
    and room: "g_line_count st < TUI_MAX_LINES"
    and short: "int (g_line_count st) < h"
  shows "length (painted_lines st h) = g_line_count st \<and>
         length (painted_lines (tui_add_line tb u t k st) h) = g_line_count st + 1"
proof -
  let ?n = "g_line_count st"
  have h0: "0 \<le> h" using h by simp
  have old: "length (painted_indices (int ?n) h (g_scroll st)) = ?n"
    unfolding painted_indices_interval [OF h0] length_upt
    using s short by linarith
  have new: "length (painted_indices (int (?n + 1)) h (g_scroll st + 1)) = ?n + 1"
    unfolding painted_indices_interval [OF h0] length_upt
    using s short by linarith
  have "painted_lines (tui_add_line tb u t k st) h =
        map (g_lines (tui_add_line tb u t k st))
          (painted_indices (int (?n + 1)) h (g_scroll st + 1))"
    using s room by (simp add: painted_lines_def tui_add_line_scroll tui_add_line_count)
  then have "length (painted_lines (tui_add_line tb u t k st) h) = ?n + 1"
    using new by (simp only: length_map)
  moreover have "length (painted_lines st h) = ?n"
    using old by (simp only: painted_lines_def length_map)
  ultimately show ?thesis by simp
qed

lemma window_kept_full:
  assumes s: "0 < g_scroll st" and h: "1 \<le> h"
    and cnt: "g_line_count st = TUI_MAX_LINES"
    and full: "1 \<le> int (g_line_count st) - h - g_scroll st"
  shows "painted_lines (tui_add_line tb u t k st) h = painted_lines st h"
proof -
  let ?n = "g_line_count st"
  let ?a = "nat (int ?n - h - g_scroll st)"
  let ?b = "nat (int ?n - g_scroll st)"
  have old: "painted_indices (int ?n) h (g_scroll st) = [?a..<?b]"
    using full s h by (intro painted_indices_full_window) simp_all
  have "painted_indices (int ?n) h (g_scroll st + 1) =
          [nat (int ?n - h - (g_scroll st + 1))..<nat (int ?n - (g_scroll st + 1))]"
    using full s h by (intro painted_indices_full_window) simp_all
  moreover have "nat (int ?n - h - (g_scroll st + 1)) = ?a - 1"
    "nat (int ?n - (g_scroll st + 1)) = ?b - 1"
    by linarith+
  ultimately have new: "painted_indices (int ?n) h (g_scroll st + 1) = [?a - 1..<?b - 1]"
    by simp
  have a1: "1 \<le> ?a" using full by linarith
  have b1: "?b < ?n" using s full h by linarith
  have "1 \<le> ?b" using full h by linarith
  then have shift: "[?a..<?b] = map Suc [?a - 1..<?b - 1]"
    using a1 by (simp add: map_Suc_upt)
  have "map ((memmove_up (g_lines st))(TUI_MAX_LINES - 1 := fill_line tb u t k)) [?a - 1..<?b - 1]
        = map (g_lines st \<circ> Suc) [?a - 1..<?b - 1]"
    using b1 cnt by (intro map_cong) (auto simp: memmove_up_def)
  also have "\<dots> = map (g_lines st) [?a..<?b]"
    unfolding shift by simp
  finally show ?thesis
    using old new s cnt
    by (simp add: painted_lines_def tui_add_line_scroll tui_add_line_count tui_add_line_lines)
qed


lemma window_moves_full_top:
  assumes s: "0 < g_scroll st" and h: "1 \<le> h"
    and cnt: "g_line_count st = TUI_MAX_LINES"
    and top: "int TUI_MAX_LINES - h - g_scroll st \<le> 0"
  shows "painted_lines (tui_add_line tb u t k st) h =
         tl (painted_lines st h) @
           [if h < int TUI_MAX_LINES then g_lines st (nat h) else fill_line tb u t k]"
proof -
  define m where "m = nat (min (int TUI_MAX_LINES) h)"
  have h0: "0 \<le> h" using h by simp
  have m1: "1 \<le> m" "m \<le> TUI_MAX_LINES"
    using h by (simp_all add: m_def TUI_MAX_LINES_def)
  have a: "max 0 (int TUI_MAX_LINES - h - g_scroll st) = 0"
    "max 0 (int TUI_MAX_LINES - h - (g_scroll st + 1)) = 0"
    using s top by linarith+
  have old: "painted_indices (int TUI_MAX_LINES) h (g_scroll st) = [0..<m]"
    using painted_indices_interval [OF h0, of TUI_MAX_LINES "g_scroll st"] unfolding a
    by (simp add: m_def)
  have new: "painted_indices (int TUI_MAX_LINES) h (g_scroll st + 1) = [0..<m]"
    using painted_indices_interval [OF h0, of TUI_MAX_LINES "g_scroll st + 1"] unfolding a
    by (simp add: m_def)
  let ?L = "fill_line tb u t k"
  let ?new = "(memmove_up (g_lines st))(TUI_MAX_LINES - 1 := ?L)"
  let ?x = "if h < int TUI_MAX_LINES then g_lines st (nat h) else ?L"
  have p: "painted_lines st h = map (g_lines st) [0..<m]"
    using old cnt by (simp add: painted_lines_def)
  have q: "painted_lines (tui_add_line tb u t k st) h = map ?new [0..<m]"
    using new s cnt
    by (simp add: painted_lines_def tui_add_line_scroll tui_add_line_count tui_add_line_lines)
  have split: "[0..<m] = [0..<m - 1] @ [m - 1]"
    using m1 upt_Suc_append [of 0 "m - 1"] by simp
  have front: "map ?new [0..<m - 1] = map (g_lines st \<circ> Suc) [0..<m - 1]"
    using m1 by (intro map_cong) (auto simp: memmove_up_def)
  have lastx: "?new (m - 1) = ?x"
  proof (cases "h < int TUI_MAX_LINES")
    case True
    then have "m = nat h" "m - 1 < TUI_MAX_LINES - 1" "m - 1 + 1 = nat h"
      using h by (simp_all add: m_def TUI_MAX_LINES_def)
    then show ?thesis using True by (simp add: memmove_up_def)
  next
    case False
    then have "m = TUI_MAX_LINES" by (simp add: m_def)
    then show ?thesis using False by simp
  qed
  have t1: "tl (map (g_lines st) [0..<m]) = map (g_lines st) [Suc 0..<m]"
    by (simp only: map_tl [symmetric] tl_upt)
  have t2: "[Suc 0..<m] = map Suc [0..<m - 1]"
    using m1 by (simp add: map_Suc_upt)
  have "tl (map (g_lines st) [0..<m]) = map (g_lines st \<circ> Suc) [0..<m - 1]"
    unfolding t1 t2 by simp
  then have "tl (painted_lines st h) @ [?x] = map ?new [0..<m - 1] @ [?new (m - 1)]"
    unfolding p front lastx by simp
  also have "\<dots> = map ?new [0..<m]"
    using split by (metis map_append list.simps(8,9))
  finally show ?thesis
    unfolding q by simp
qed

lemma three_lines_count: "g_line_count three_lines = 3"
  by (simp add: three_lines_def count_from_init length_numbered_lines TUI_MAX_LINES_def)

lemma ten_lines_count: "g_line_count ten_lines = 10"
  by (simp add: ten_lines_def count_from_init length_numbered_lines TUI_MAX_LINES_def)

lemma full_lines_count: "g_line_count full_lines = 600"
  by (simp add: full_lines_def count_from_init length_numbered_lines TUI_MAX_LINES_def)

lemma full_lines_line:
  assumes "i < 600"
  shows "g_lines full_lines i =
         \<lparr>line_timebuf = [], line_username = [], line_text = digits3 i, line_kind = SYSTEM\<rparr>"
proof -
  have "g_lines (tui_add_lines (numbered_lines 600) init_state) i =
        line_of_args (numbered_lines 600 ! i)"
    using assms by (intro g_lines_from_init) (simp_all add: length_numbered_lines TUI_MAX_LINES_def)
  then show ?thesis
    using assms by (simp add: full_lines_def numbered_line_at)
qed

text \<open>
  Claim C7, as stated, fails in its last part, in two ways. With three stored lines,
  \<open>g_scroll = 1\<close> and the 18 message rows of a 24-row terminal, the appended line enters
  the window. With a full buffer of 600 lines, \<open>g_scroll = 594\<close> and the six message rows
  of a 12-row terminal, the window shows the lines 000 to 005 before the append and the
  lines 001 to 006 after it: the append evicts the oldest line, which was in the window.
\<close>

theorem scrolled_append_changes_window:
  "g_scroll three_lines = 1 \<and>
   g_scroll (tui_add_line None None (Some ''new'') MESSAGE_RECV three_lines) = 2 \<and>
   length (painted_lines three_lines (tui_msg_h 24)) = 3 \<and>
   length (painted_lines (tui_add_line None None (Some ''new'') MESSAGE_RECV three_lines)
     (tui_msg_h 24)) = 4 \<and>
   painted_lines (tui_add_line None None (Some ''new'') MESSAGE_RECV three_lines) (tui_msg_h 24)
     \<noteq> painted_lines three_lines (tui_msg_h 24) \<and>
   g_line_count full_lines = TUI_MAX_LINES \<and> g_scroll full_lines = 594 \<and>
   g_scroll (tui_add_line None None (Some ''new'') MESSAGE_RECV full_lines) = 595 \<and>
   map line_text (painted_lines full_lines (tui_msg_h 12)) =
     [''000'', ''001'', ''002'', ''003'', ''004'', ''005''] \<and>
   map line_text (painted_lines (tui_add_line None None (Some ''new'') MESSAGE_RECV full_lines)
     (tui_msg_h 12)) = [''001'', ''002'', ''003'', ''004'', ''005'', ''006'']"
proof -
  let ?add = "tui_add_line None None (Some ''new'') MESSAGE_RECV"
  have s: "g_scroll three_lines = 1"
    by (simp add: three_lines_def)
  have p: "length (painted_indices 3 18 1) = 3" "length (painted_indices 4 18 2) = 4"
    by code_simp+
  have l: "length (painted_lines three_lines (tui_msg_h 24)) = 3"
    "length (painted_lines (?add three_lines) (tui_msg_h 24)) = 4"
    by (simp_all add: painted_lines_def tui_msg_h_def tui_add_line_count tui_add_line_scroll
        TUI_MAX_LINES_def three_lines_count s p)
  have ne: "painted_lines (?add three_lines) (tui_msg_h 24) \<noteq>
            painted_lines three_lines (tui_msg_h 24)"
  proof
    assume "painted_lines (?add three_lines) (tui_msg_h 24) =
            painted_lines three_lines (tui_msg_h 24)"
    then have "(4::nat) = 3" using l by simp
    then show False by simp
  qed
  have fs: "g_scroll full_lines = 594"
    by (simp add: full_lines_def)
  have fp: "painted_indices 600 6 594 = [0, 1, 2, 3, 4, 5]"
    "painted_indices 600 6 595 = [0, 1, 2, 3, 4, 5]"
    by code_simp+
  have before: "map line_text (painted_lines full_lines (tui_msg_h 12)) =
                  [''000'', ''001'', ''002'', ''003'', ''004'', ''005'']"
    by (simp add: painted_lines_def tui_msg_h_def full_lines_count fs fp full_lines_line
        digits3_values)
  have after: "map line_text (painted_lines (?add full_lines) (tui_msg_h 12)) =
                  [''001'', ''002'', ''003'', ''004'', ''005'', ''006'']"
    by (simp add: painted_lines_def tui_msg_h_def tui_add_line_count tui_add_line_scroll
        tui_add_line_lines TUI_MAX_LINES_def memmove_up_def full_lines_count fs fp
        full_lines_line digits3_values)
  show ?thesis
    using s l ne fs before after
    by (simp add: tui_add_line_scroll full_lines_count TUI_MAX_LINES_def)
qed

text \<open>
  Claim C7, amended. Appending one line leaves \<open>g_scroll = 0\<close> at 0 and changes
  \<open>g_scroll = s > 0\<close> to \<open>s + 1\<close>. With \<open>s > 0\<close> and a window of \<open>h \<ge> 1\<close> rows: while
  the buffer has room, the painted lines are the same before and after the append exactly
  when the window was full (\<open>h \<le> n\<close>), wherever the scroll offset points; once the buffer
  holds \<open>TUI_MAX_LINES\<close> lines (the append evicts the oldest), they are the same when
  \<open>n - h - s \<ge> 1\<close>, and otherwise the window, which starts at the oldest line, moves on by
  one line: its first line leaves and the line that followed the window (the appended line
  when \<open>h \<ge> TUI_MAX_LINES\<close>) enters at the bottom.
\<close>

theorem scroll_pin_on_append:
  shows "(g_scroll st = 0 \<longrightarrow> g_scroll (tui_add_line tb u t k st) = 0) \<and>
         (0 < g_scroll st \<longrightarrow> g_scroll (tui_add_line tb u t k st) = g_scroll st + 1) \<and>
         (0 < g_scroll st \<and> 1 \<le> h \<and> g_line_count st < TUI_MAX_LINES \<longrightarrow>
            (painted_lines (tui_add_line tb u t k st) h = painted_lines st h) =
            (h \<le> int (g_line_count st))) \<and>
         (0 < g_scroll st \<and> 1 \<le> h \<and> g_line_count st = TUI_MAX_LINES \<and>
          1 \<le> int TUI_MAX_LINES - h - g_scroll st \<longrightarrow>
            painted_lines (tui_add_line tb u t k st) h = painted_lines st h) \<and>
         (0 < g_scroll st \<and> 1 \<le> h \<and> g_line_count st = TUI_MAX_LINES \<and>
          int TUI_MAX_LINES - h - g_scroll st \<le> 0 \<longrightarrow>
            painted_lines (tui_add_line tb u t k st) h =
              tl (painted_lines st h) @
                [if h < int TUI_MAX_LINES then g_lines st (nat h) else fill_line tb u t k])"
proof -
  have a: "g_scroll st = 0 \<longrightarrow> g_scroll (tui_add_line tb u t k st) = 0"
    "0 < g_scroll st \<longrightarrow> g_scroll (tui_add_line tb u t k st) = g_scroll st + 1"
    by (simp_all add: tui_add_line_scroll)
  have b: "(painted_lines (tui_add_line tb u t k st) h = painted_lines st h) =
           (h \<le> int (g_line_count st))"
    if "0 < g_scroll st" "1 \<le> h" "g_line_count st < TUI_MAX_LINES"
  proof (cases "h \<le> int (g_line_count st)")
    case True
    then show ?thesis
      using window_kept_room [OF that True, of tb u t k] by simp
  next
    case False
    then have "int (g_line_count st) < h" by simp
    from window_grows_short [OF that this, of tb u t k]
    have "length (painted_lines (tui_add_line tb u t k st) h) \<noteq> length (painted_lines st h)"
      by simp
    then have "painted_lines (tui_add_line tb u t k st) h \<noteq> painted_lines st h"
      by auto
    then show ?thesis using False by simp
  qed
  have c: "painted_lines (tui_add_line tb u t k st) h = painted_lines st h"
    if "0 < g_scroll st" "1 \<le> h" "g_line_count st = TUI_MAX_LINES"
      "1 \<le> int TUI_MAX_LINES - h - g_scroll st"
    using window_kept_full [of st h tb u t k] that by simp
  have d: "painted_lines (tui_add_line tb u t k st) h =
             tl (painted_lines st h) @
               [if h < int TUI_MAX_LINES then g_lines st (nat h) else fill_line tb u t k]"
    if "0 < g_scroll st" "1 \<le> h" "g_line_count st = TUI_MAX_LINES"
      "int TUI_MAX_LINES - h - g_scroll st \<le> 0"
    using that by (rule window_moves_full_top)
  show ?thesis
    using a b c d by blast
qed

theorem scroll_pin_on_append_witness:
  "0 < g_scroll ten_lines \<and> (1::int) \<le> tui_msg_h 12 \<and> g_line_count ten_lines < TUI_MAX_LINES \<and>
   tui_msg_h 12 \<le> int (g_line_count ten_lines) \<and>
   int (g_line_count ten_lines) - tui_msg_h 12 - g_scroll ten_lines < 0 \<and>
   g_scroll (tui_add_line None None (Some ''new'') MESSAGE_RECV ten_lines) = 9 \<and>
   painted_lines (tui_add_line None None (Some ''new'') MESSAGE_RECV ten_lines) (tui_msg_h 12) =
     painted_lines ten_lines (tui_msg_h 12) \<and>
   g_line_count (full_lines\<lparr>g_scroll := 2\<rparr>) = TUI_MAX_LINES \<and>
   1 \<le> int TUI_MAX_LINES - tui_msg_h 12 - g_scroll (full_lines\<lparr>g_scroll := 2\<rparr>) \<and>
   painted_lines (tui_add_line None None (Some ''new'') MESSAGE_RECV (full_lines\<lparr>g_scroll := 2\<rparr>))
     (tui_msg_h 12) = painted_lines (full_lines\<lparr>g_scroll := 2\<rparr>) (tui_msg_h 12) \<and>
   g_line_count full_lines = TUI_MAX_LINES \<and>
   int TUI_MAX_LINES - tui_msg_h 12 - g_scroll full_lines \<le> 0 \<and>
   painted_lines (tui_add_line None None (Some ''new'') MESSAGE_RECV full_lines) (tui_msg_h 12) =
     tl (painted_lines full_lines (tui_msg_h 12)) @ [g_lines full_lines 6]"
proof -
  let ?add = "tui_add_line None None (Some ''new'') MESSAGE_RECV"
  let ?two = "full_lines\<lparr>g_scroll := 2\<rparr>"
  have m: "tui_msg_h 12 = 6"
    by (simp add: tui_msg_h_def)
  have s: "g_scroll ten_lines = 8" "g_scroll full_lines = 594"
    by (simp_all add: ten_lines_def full_lines_def)
  have h: "0 < g_scroll ten_lines" "(1::int) \<le> tui_msg_h 12"
    "g_line_count ten_lines < TUI_MAX_LINES" "tui_msg_h 12 \<le> int (g_line_count ten_lines)"
    "int (g_line_count ten_lines) - tui_msg_h 12 - g_scroll ten_lines < 0"
    using s m by (simp_all add: ten_lines_count TUI_MAX_LINES_def)
  have f: "0 < g_scroll ?two" "g_line_count ?two = TUI_MAX_LINES"
    "1 \<le> int TUI_MAX_LINES - tui_msg_h 12 - g_scroll ?two"
    "0 < g_scroll full_lines" "g_line_count full_lines = TUI_MAX_LINES"
    "int TUI_MAX_LINES - tui_msg_h 12 - g_scroll full_lines \<le> 0"
    "tui_msg_h 12 < int TUI_MAX_LINES"
    using s m by (simp_all add: full_lines_count TUI_MAX_LINES_def)
  from scroll_pin_on_append [of ten_lines None None "Some ''new''" MESSAGE_RECV "tui_msg_h 12"] h
  have a: "g_scroll (?add ten_lines) = g_scroll ten_lines + 1 \<and>
        painted_lines (?add ten_lines) (tui_msg_h 12) = painted_lines ten_lines (tui_msg_h 12)"
    by blast
  from scroll_pin_on_append [of ?two None None "Some ''new''" MESSAGE_RECV "tui_msg_h 12"]
    f(1,2,3) h(2)
  have b: "painted_lines (?add ?two) (tui_msg_h 12) = painted_lines ?two (tui_msg_h 12)"
    by blast
  from scroll_pin_on_append [of full_lines None None "Some ''new''" MESSAGE_RECV "tui_msg_h 12"]
    f(4,5,6) h(2)
  have "painted_lines (?add full_lines) (tui_msg_h 12) =
          tl (painted_lines full_lines (tui_msg_h 12)) @
            [if tui_msg_h 12 < int TUI_MAX_LINES then g_lines full_lines (nat (tui_msg_h 12))
             else fill_line None None (Some ''new'') MESSAGE_RECV]"
    by blast
  then have c: "painted_lines (?add full_lines) (tui_msg_h 12) =
          tl (painted_lines full_lines (tui_msg_h 12)) @ [g_lines full_lines 6]"
    using f(7) by (simp add: m)
  show ?thesis
    using h a b c f(2,3,5,6) s by simp
qed

section \<open>Reading from the socket (client.c perform_full_read, clientOp.c full_read)\<close>

text \<open>
  The inbound side of the socket is a finite script of what successive \<open>read\<close> calls meet:
  a chunk of bytes that has arrived (a \<open>read\<close> takes at most as many as it asked for and
  leaves the rest), a signal that interrupts the call (\<open>-1\<close>, \<open>errno = EINTR\<close>), or a
  failure (\<open>-1\<close> with another \<open>errno\<close>, here \<open>EIO\<close>). After the script the peer has
  closed the stream: \<open>read\<close> returns 0. A chunk without bytes delivers nothing and is
  skipped. The world of a reader is \<open>errno\<close> and the rest of the script.
\<close>

datatype errno_t = ENONE | EINTR | EIO

datatype sock_event = Data "byte list" | Interrupted | Broken

type_synonym world = "errno_t \<times> sock_event list"

fun sys_read :: "nat \<Rightarrow> world \<Rightarrow> byte list option \<times> world" where
  "sys_read k (e, []) = (Some [], (e, []))"
| "sys_read k (e, Interrupted # es) = (None, (EINTR, es))"
| "sys_read k (e, Broken # es) = (None, (EIO, es))"
| "sys_read k (e, Data bs # es) =
     (if bs = [] then sys_read k (e, es)
      else if length bs \<le> k then (Some bs, (e, es))
      else (Some (take k bs), (e, Data (drop k bs) # es)))"

text \<open>Writing \<open>bs\<close> into a buffer at offset \<open>off\<close> (\<open>read(fd, buf + off, ...)\<close>).\<close>

definition store :: "byte list \<Rightarrow> nat \<Rightarrow> byte list \<Rightarrow> byte list" where
  "store buf off bs = take off buf @ bs @ drop (off + length bs) buf"

lemma sys_read_None:
  "sys_read k (e, src) = (None, (e', src')) \<Longrightarrow> length src' < length src \<and> e' \<noteq> ENONE"
  by (induction k "(e, src)" arbitrary: src rule: sys_read.induct) (auto split: if_splits)

lemma sys_read_Some:
  "sys_read k (e, src) = (Some bs, (e', src')) \<Longrightarrow>
     length src' \<le> length src \<and> (0 < k \<longrightarrow> length bs \<le> k) \<and> e' = e"
  by (induction k "(e, src)" arbitrary: src rule: sys_read.induct) (auto split: if_splits)

lemma sys_read_None2:
  "sys_read k w = (None, w') \<Longrightarrow> length (snd w') < length (snd w)"
  using sys_read_None [of k "fst w" "snd w" "fst w'" "snd w'"] by simp

lemma sys_read_Some2:
  "sys_read k w = (Some bs, w') \<Longrightarrow>
     length (snd w') \<le> length (snd w) \<and> (0 < k \<longrightarrow> length bs \<le> k) \<and> fst w' = fst w"
  using sys_read_Some [of k "fst w" "snd w" bs "fst w'" "snd w'"] by simp

text \<open>
  The \<open>while (total_read < n)\<close> loop, the same in \<open>perform_full_read\<close> (client.c,
  clientAi.c) and \<open>full_read\<close> (clientOp.c, with \<open>off\<close> for \<open>total_read\<close>). The result is
  the returned \<open>ssize_t\<close>, the buffer and the world.
\<close>

function perform_full_read_loop ::
  "nat \<Rightarrow> byte list \<Rightarrow> nat \<Rightarrow> world \<Rightarrow> int \<times> byte list \<times> world" where
  "perform_full_read_loop n buf total_read w =
     (if total_read < n then
        (case sys_read (n - total_read) w of
           (None, w') \<Rightarrow>
             if fst w' = EINTR then perform_full_read_loop n buf total_read w'
             else (- 1, buf, w')
         | (Some bs, w') \<Rightarrow>
             if bs = [] then (int total_read, buf, w')
             else perform_full_read_loop n (store buf total_read bs) (total_read + length bs) w')
      else (int total_read, buf, w))"
  by pat_completeness auto
termination
proof (relation "measure (\<lambda>(n, buf, total_read, w). (n - total_read) + length (snd w))")
  show "wf (measure (\<lambda>(n, buf, total_read, w). (n - total_read) + length (snd w)))"
    by simp
next
  fix n total_read :: nat and buf :: "byte list" and w y :: world and x :: "byte list option"
  assume "total_read < n" "(x, y) = sys_read (n - total_read) w" "x = None"
  then have "sys_read (n - total_read) w = (None, y)" by simp
  from sys_read_None2 [OF this]
  show "((n, buf, total_read, y), n, buf, total_read, w)
          \<in> measure (\<lambda>(n, buf, total_read, w). (n - total_read) + length (snd w))"
    by simp
next
  fix n total_read :: nat and buf x2 :: "byte list" and w y :: world and x :: "byte list option"
  assume a: "total_read < n" "(x, y) = sys_read (n - total_read) w" "x = Some x2" "x2 \<noteq> []"
  then have "sys_read (n - total_read) w = (Some x2, y)" by simp
  from sys_read_Some2 [OF this] a
  have "length (snd y) \<le> length (snd w)" "length x2 \<le> n - total_read" "0 < length x2"
    by simp_all
  then have "(n - (total_read + length x2)) + length (snd y) < (n - total_read) + length (snd w)"
    using a(1) by linarith
  then show "((n, store buf total_read x2, total_read + length x2, y), n, buf, total_read, w)
          \<in> measure (\<lambda>(n, buf, total_read, w). (n - total_read) + length (snd w))"
    by simp
qed

declare perform_full_read_loop.simps [simp del]

text \<open>
  The byte stream a script delivers before its first failure, and whether it has a failure.
\<close>

fun src_data :: "sock_event list \<Rightarrow> byte list" where
  "src_data [] = []"
| "src_data (Data bs # es) = bs @ src_data es"
| "src_data (Interrupted # es) = src_data es"
| "src_data (Broken # es) = []"

fun src_broken :: "sock_event list \<Rightarrow> bool" where
  "src_broken [] = False"
| "src_broken (Data bs # es) = src_broken es"
| "src_broken (Interrupted # es) = src_broken es"
| "src_broken (Broken # es) = True"

text \<open>\<open>perform_full_read\<close> of client.c: the NULL check, then the loop.\<close>

definition perform_full_read ::
  "byte list option \<Rightarrow> nat \<Rightarrow> world \<Rightarrow> int \<times> byte list option \<times> world" where
  "perform_full_read buf n w =
     (case buf of
        None \<Rightarrow> (- 1, None, w)
      | Some b \<Rightarrow> (case perform_full_read_loop n b 0 w of (r, b', w') \<Rightarrow> (r, Some b', w')))"

text \<open>\<open>full_read\<close> of clientOp.c: the loop alone.\<close>

definition full_read :: "byte list \<Rightarrow> nat \<Rightarrow> world \<Rightarrow> int \<times> byte list \<times> world" where
  "full_read buf n w = perform_full_read_loop n buf 0 w"

text \<open>
  What the loop must have done when it returns, started with \<open>t\<close> bytes already in the
  buffer on a stream \<open>d\<close>: the three outcomes (all \<open>n\<close> bytes, a failure, end of stream).
\<close>

definition full_read_post ::
  "nat \<Rightarrow> byte list \<Rightarrow> nat \<Rightarrow> byte list \<Rightarrow> bool \<Rightarrow> int \<times> byte list \<times> world \<Rightarrow> bool" where
  "full_read_post n buf t d broken res =
     (case res of (r, buf', w') \<Rightarrow>
        buf' = store buf t (take (n - t) d) \<and>
        (if n \<le> t + length d
         then r = int n \<and> src_data (snd w') = drop (n - t) d \<and> src_broken (snd w') = broken
         else if broken then r = - 1 \<and> fst w' = EIO
         else r = int (t + length d) \<and> snd w' = []))"

lemma store_nil [simp]: "store buf t [] = buf"
  by (simp add: store_def)

lemma store_store:
  "store (store buf t a) (t + length a) b = store buf t (a @ b)"
  by (auto simp add: store_def add.commute add.left_commute min_def)

lemma sys_read_intr:
  "sys_read k w = (None, w') \<Longrightarrow> fst w' = EINTR \<Longrightarrow>
     src_data (snd w') = src_data (snd w) \<and> src_broken (snd w') = src_broken (snd w)"
  by (induction k w rule: sys_read.induct) (auto split: if_splits)

lemma sys_read_fail:
  "sys_read k w = (None, w') \<Longrightarrow> fst w' \<noteq> EINTR \<Longrightarrow>
     src_data (snd w) = [] \<and> src_broken (snd w) \<and> fst w' = EIO"
  by (induction k w rule: sys_read.induct) (auto split: if_splits)

lemma sys_read_data:
  "sys_read k w = (Some bs, w') \<Longrightarrow> 0 < k \<Longrightarrow>
     src_data (snd w) = bs @ src_data (snd w') \<and> src_broken (snd w') = src_broken (snd w) \<and>
     length bs \<le> k \<and> (bs = [] \<longrightarrow> snd w' = [] \<and> \<not> src_broken (snd w))"
  by (induction k w rule: sys_read.induct) (auto split: if_splits)


lemma full_read_post_loop:
  "t \<le> n \<Longrightarrow>
   full_read_post n buf t (src_data (snd w)) (src_broken (snd w)) (perform_full_read_loop n buf t w)"
proof (induction n buf t w rule: perform_full_read_loop.induct)
  case (1 n buf t w)
  let ?d = "src_data (snd w)" and ?b = "src_broken (snd w)"
  show ?case
  proof (cases "t < n")
    case False
    then have "t = n" using "1.prems" by simp
    then show ?thesis
      by (simp add: perform_full_read_loop.simps [of n buf n w] full_read_post_def)
  next
    case True
    obtain x y where r: "sys_read (n - t) w = (x, y)" by (cases "sys_read (n - t) w")
    have k: "0 < n - t" using True by simp
    show ?thesis
    proof (cases x)
      case None
      show ?thesis
      proof (cases "fst y = EINTR")
        case e: True
        have eq: "perform_full_read_loop n buf t w = perform_full_read_loop n buf t y"
          using True r None e by (simp add: perform_full_read_loop.simps [of n buf t w])
        have "full_read_post n buf t (src_data (snd y)) (src_broken (snd y))
                (perform_full_read_loop n buf t y)"
          using "1.IH"(1) [OF True r [symmetric] None e "1.prems"] .
        then show ?thesis
          using sys_read_intr [of "n - t" w y] r None e eq by simp
      next
        case e: False
        have eq: "perform_full_read_loop n buf t w = (- 1, buf, y)"
          using True r None e by (simp add: perform_full_read_loop.simps [of n buf t w])
        show ?thesis
          using sys_read_fail [of "n - t" w y] r None e True
          by (simp add: eq full_read_post_def)
      qed
    next
      case (Some bs)
      have d: "?d = bs @ src_data (snd y)" "src_broken (snd y) = ?b" "length bs \<le> n - t"
        "bs = [] \<longrightarrow> snd y = [] \<and> \<not> ?b"
        using sys_read_data [of "n - t" w bs y] r Some k by simp_all
      show ?thesis
      proof (cases "bs = []")
        case e: True
        have eq: "perform_full_read_loop n buf t w = (int t, buf, y)"
          using True r Some e by (simp add: perform_full_read_loop.simps [of n buf t w])
        show ?thesis
          using d e True by (simp add: eq full_read_post_def)
      next
        case e: False
        have eq: "perform_full_read_loop n buf t w =
                  perform_full_read_loop n (store buf t bs) (t + length bs) y"
          using True r Some e by (simp add: perform_full_read_loop.simps [of n buf t w])
        have le: "t + length bs \<le> n" using d(3) True by simp
        have ih: "full_read_post n (store buf t bs) (t + length bs) (src_data (snd y))
                (src_broken (snd y))
                (perform_full_read_loop n (store buf t bs) (t + length bs) y)"
          using "1.IH"(2) [OF True r [symmetric] Some e le] .
        have tk: "take (n - t) (bs @ src_data (snd y)) =
                  bs @ take (n - (t + length bs)) (src_data (snd y))"
          using d(3) by simp
        have dr: "drop (n - t) (bs @ src_data (snd y)) =
                  drop (n - (t + length bs)) (src_data (snd y))"
          using d(3) by simp
        show ?thesis
          using ih unfolding eq d(1) d(2) [symmetric] full_read_post_def tk dr
          by (auto simp add: store_store add.assoc split: prod.splits)
      qed
    qed
  qed
qed

section \<open>The receive loop of client.c (receive_messages_thread)\<close>

text \<open>
  A \<open>message_t\<close> buffer is its 1064 bytes: \<open>m_type\<close> and \<open>timeStamp\<close> in network order,
  \<open>username[32]\<close>, \<open>message[1024]\<close>. \<open>fmt\<close> stands for \<open>strftime\<close> of \<open>localtime\<close>.
  The loop body returns how it leaves the iteration (\<open>break\<close> or \<open>continue\<close>), the
  duplicate-guard variables and the state.
\<close>

definition sizeof_message_t :: nat where "sizeof_message_t = 1064"

definition ntohl_at :: "byte list \<Rightarrow> nat \<Rightarrow> nat" where
  "ntohl_at buf off =
     ((of_char (buf ! off) * 256 + of_char (buf ! (off + 1))) * 256
        + of_char (buf ! (off + 2))) * 256 + of_char (buf ! (off + 3))"

definition to_int32 :: "nat \<Rightarrow> int" where
  "to_int32 u = (if u < 2147483648 then int u else int u - 4294967296)"

definition msg_m_type :: "byte list \<Rightarrow> nat" where "msg_m_type msg = ntohl_at msg 0"
definition msg_timeStamp :: "byte list \<Rightarrow> nat" where "msg_timeStamp msg = ntohl_at msg 4"
definition msg_username :: "byte list \<Rightarrow> byte list" where "msg_username msg = drop 8 msg"
definition msg_message :: "byte list \<Rightarrow> byte list" where "msg_message msg = drop 40 msg"

datatype loop_ctl = Break | Continue

definition print_line :: "print_t \<Rightarrow> client_state \<Rightarrow> client_state" where
  "print_line p st = st\<lparr>printed := printed st @ [p]\<rparr>"

definition receive_messages_body ::
  "(nat \<Rightarrow> byte list) \<Rightarrow> int \<Rightarrow> errno_t \<Rightarrow> byte list \<Rightarrow> byte list \<Rightarrow> bool \<Rightarrow>
   client_state \<Rightarrow> loop_ctl \<times> (byte list \<times> bool) \<times> client_state" where
  "receive_messages_body fmt r errno msg last_msg has_last st =
     (if r < 0 \<and> errno = EINTR then (Continue, (last_msg, has_last), st)
      else if r = 0 then
        (Break, (last_msg, has_last),
         (if g_tui_enabled st
          then tui_set_dirty (tui_add_line (Some ''SYSTEM'') (Some ''UNSC'')
                 (Some ''Server has disconnected'') SYSTEM st)
          else print_line (PrintInfo ''Server has disconnected'') st)\<lparr>running := False\<rparr>)
      else if r < 0 then
        (Break, (last_msg, has_last),
         if g_tui_enabled st
         then tui_set_dirty (tui_add_line (Some ''SYSTEM'') (Some ''ERROR'')
                (Some ''Could not read from server'') SYSTEM st)
         else print_line (PrintError ''Could not read from server'') st)
      else if has_last \<and> msg = last_msg then (Continue, (last_msg, has_last), st)
      else
        (let timebuf = fmt (msg_timeStamp msg);
             mt = to_int32 (msg_m_type msg)
         in if g_tui_enabled st then
              (Continue, (msg, True),
               if mt = MESSAGE_RECV then
                 tui_add_line (Some timebuf) (Some (msg_username msg)) (Some (msg_message msg))
                   MESSAGE_RECV st
               else if mt = SYSTEM then
                 tui_add_line (Some timebuf) (Some ''UNSC'') (Some (msg_message msg)) SYSTEM st
               else if mt = DISCONNECT then
                 (tui_add_line (Some timebuf) (Some ''DISCONNECT'') (Some (msg_message msg))
                    DISCONNECT st)\<lparr>running := False\<rparr>
               else
                 tui_add_line (Some timebuf) (Some ''System'') (Some (msg_message msg)) mt st)
            else if mt = MESSAGE_RECV then
              (Continue, (msg, True),
               print_line (PrintMsg (cstr timebuf) (cstr (msg_username msg))
                 (cstr (msg_message msg))) st)
            else if mt = SYSTEM then
              (Continue, (msg, True), print_line (PrintSystem (cstr (msg_message msg))) st)
            else if mt = DISCONNECT then
              (Break, (msg, True),
               (print_line (PrintDisconnect (cstr (msg_message msg))) st)\<lparr>running := False\<rparr>)
            else (Continue, (msg, True), st)))"

lemma receive_messages_body_Continue:
  "receive_messages_body fmt r errno msg last_msg has_last st = (Continue, last', st') \<Longrightarrow>
     (r < 0 \<and> errno = EINTR) \<or> 0 < r"
  by (auto simp add: receive_messages_body_def Let_def split: if_splits)

lemma perform_full_read_post:
  "perform_full_read (Some buf) n w = (r, b, w') \<Longrightarrow>
   \<exists>buf'. b = Some buf' \<and> full_read_post n buf 0 (src_data (snd w)) (src_broken (snd w)) (r, buf', w')"
  using full_read_post_loop [of 0 n buf w]
  by (auto simp add: perform_full_read_def split: prod.splits)

lemma perform_full_read_progress:
  assumes "perform_full_read (Some buf) n w = (r, b, w')"
    and "(r < 0 \<and> fst w' = EINTR) \<or> 0 < r"
  shows "length (src_data (snd w')) < length (src_data (snd w))"
proof -
  from perform_full_read_post [OF assms(1)] obtain buf' where
    p: "full_read_post n buf 0 (src_data (snd w)) (src_broken (snd w)) (r, buf', w')" by blast
  show ?thesis
    using p assms(2) by (auto simp add: full_read_post_def split: if_splits)
qed

function receive_messages_loop ::
  "(nat \<Rightarrow> byte list) \<Rightarrow> byte list \<Rightarrow> byte list \<Rightarrow> bool \<Rightarrow> client_state \<Rightarrow> world \<Rightarrow>
   client_state \<times> world" where
  "receive_messages_loop fmt msg last_msg has_last st w =
     (if running st then
        (case perform_full_read (Some msg) sizeof_message_t w of
           (r, buf, w') \<Rightarrow>
             (case receive_messages_body fmt r (fst w') (case buf of None \<Rightarrow> msg | Some b \<Rightarrow> b)
                     last_msg has_last st of
                (Break, lh, st') \<Rightarrow> (st', w')
              | (Continue, lh, st') \<Rightarrow>
                  receive_messages_loop fmt (case buf of None \<Rightarrow> msg | Some b \<Rightarrow> b)
                    (fst lh) (snd lh) st' w'))
      else (st, w))"
  by pat_completeness auto
termination
proof (relation "measure (\<lambda>(fmt, msg, last_msg, has_last, st, w). length (src_data (snd w)))")
  show "wf (measure (\<lambda>(fmt, msg, last_msg, has_last, st, w). length (src_data (snd w))))"
    by simp
next
  fix fmt :: "nat \<Rightarrow> byte list" and msg last_msg :: "byte list" and has_last :: bool
    and st yc :: client_state and w ya :: world and x :: int
    and y :: "byte list option \<times> world" and xa :: "byte list option" and xb :: loop_ctl
    and yb :: "(byte list \<times> bool) \<times> client_state" and xc :: "byte list \<times> bool"
  assume a: "(x, y) = perform_full_read (Some msg) sizeof_message_t w" "(xa, ya) = y"
    "(xb, yb) = receive_messages_body fmt x (fst ya)
        (case xa of None \<Rightarrow> msg | Some b \<Rightarrow> b) last_msg has_last st"
    "xb = Continue" "(xc, yc) = yb"
  have r: "perform_full_read (Some msg) sizeof_message_t w = (x, xa, ya)"
    using a(1,2) by simp
  have "receive_messages_body fmt x (fst ya) (case xa of None \<Rightarrow> msg | Some b \<Rightarrow> b)
          last_msg has_last st = (Continue, xc, yc)"
    using a(3,4,5) by simp
  from receive_messages_body_Continue [OF this]
  have "length (src_data (snd ya)) < length (src_data (snd w))"
    by (rule perform_full_read_progress [OF r])
  then show "((fmt, case xa of None \<Rightarrow> msg | Some b \<Rightarrow> b, fst xc, snd xc, yc, ya),
              fmt, msg, last_msg, has_last, st, w)
          \<in> measure (\<lambda>(fmt, msg, last_msg, has_last, st, w). length (src_data (snd w)))"
    by simp
qed

declare receive_messages_loop.simps [simp del]

text \<open>
  The thread function: the greeting, then the loop with \<open>msg\<close> and \<open>last_msg\<close> zeroed and
  \<open>has_last = 0\<close>.
\<close>

definition receive_messages_thread ::
  "(nat \<Rightarrow> byte list) \<Rightarrow> client_state \<Rightarrow> world \<Rightarrow> client_state \<times> world" where
  "receive_messages_thread fmt st w =
     (let st0 = (if g_tui_enabled st
                 then tui_add_line (Some ''SYSTEM'') (Some ''CORTANA'')
                        (Some ''Type '!help' for available commands'') SYSTEM st
                 else print_line (PrintInfo ''Type '!disconnect' to disconnect'') st)
      in receive_messages_loop fmt (replicate sizeof_message_t NUL)
           (replicate sizeof_message_t NUL) False st0 w)"

section \<open>What the receive loop displays\<close>

definition is_disconnect :: "byte list \<Rightarrow> bool" where
  "is_disconnect msg = (to_int32 (msg_m_type msg) = DISCONNECT)"

definition frame_line_args :: "(nat \<Rightarrow> byte list) \<Rightarrow> byte list \<Rightarrow> line_args" where
  "frame_line_args fmt msg =
     (let timebuf = fmt (msg_timeStamp msg); mt = to_int32 (msg_m_type msg)
      in if mt = MESSAGE_RECV then
           (Some timebuf, Some (msg_username msg), Some (msg_message msg), MESSAGE_RECV)
         else if mt = SYSTEM then (Some timebuf, Some ''UNSC'', Some (msg_message msg), SYSTEM)
         else if mt = DISCONNECT then
           (Some timebuf, Some ''DISCONNECT'', Some (msg_message msg), DISCONNECT)
         else (Some timebuf, Some ''System'', Some (msg_message msg), mt))"

definition eof_line_args :: line_args where
  "eof_line_args = (Some ''SYSTEM'', Some ''UNSC'', Some ''Server has disconnected'', SYSTEM)"

definition until_disconnect :: "byte list list \<Rightarrow> byte list list" where
  "until_disconnect frames =
     takeWhile (\<lambda>f. \<not> is_disconnect f) frames @ take 1 (dropWhile (\<lambda>f. \<not> is_disconnect f) frames)"

fun rx_accept :: "byte list option \<Rightarrow> byte list list \<Rightarrow> byte list list" where
  "rx_accept prev [] = []"
| "rx_accept prev (f # fs) =
     (if prev = Some f then rx_accept prev fs
      else f # (if is_disconnect f then [] else rx_accept (Some f) fs))"

fun rx_eof :: "byte list option \<Rightarrow> byte list list \<Rightarrow> bool" where
  "rx_eof prev [] = True"
| "rx_eof prev (f # fs) =
     (if prev = Some f then rx_eof prev fs
      else if is_disconnect f then False else rx_eof (Some f) fs)"

lemma until_disconnect_Cons:
  "until_disconnect (f # fs) = (if is_disconnect f then [f] else f # until_disconnect fs)"
  by (simp add: until_disconnect_def)

lemma remdups_adj_hd_tl: "remdups_adj (f # xs) = f # tl (remdups_adj (f # xs))"
  by (cases xs) auto

lemma rx_accept_Some:
  "\<not> is_disconnect l \<Longrightarrow> rx_accept (Some l) fs = tl (remdups_adj (l # until_disconnect fs))"
proof (induction fs arbitrary: l)
  case Nil
  then show ?case by (simp add: until_disconnect_def)
next
  case (Cons f fs)
  show ?case
  proof (cases "f = l")
    case True
    then show ?thesis using Cons by (simp add: until_disconnect_Cons)
  next
    case False
    show ?thesis
    proof (cases "is_disconnect f")
      case True
      then show ?thesis using False by (simp add: until_disconnect_Cons)
    next
      case nd: False
      have "rx_accept (Some l) (f # fs) = f # tl (remdups_adj (f # until_disconnect fs))"
        using False nd Cons.IH [OF nd] by auto
      also have "\<dots> = remdups_adj (f # until_disconnect fs)"
        by (rule remdups_adj_hd_tl [symmetric])
      finally show ?thesis using False nd by (simp add: until_disconnect_Cons)
    qed
  qed
qed

lemma rx_accept_None: "rx_accept None fs = remdups_adj (until_disconnect fs)"
proof (cases fs)
  case Nil
  then show ?thesis by (simp add: until_disconnect_def)
next
  case (Cons f fs')
  show ?thesis
  proof (cases "is_disconnect f")
    case True
    then show ?thesis using Cons by (simp add: until_disconnect_Cons)
  next
    case False
    then show ?thesis
      using Cons rx_accept_Some [OF False, of fs'] remdups_adj_hd_tl [of f "until_disconnect fs'"]
      by (simp add: until_disconnect_Cons)
  qed
qed

lemma rx_eof_iff: "rx_eof prev fs = (\<forall>f\<in>set (rx_accept prev fs). \<not> is_disconnect f)"
  by (induction fs arbitrary: prev) auto

lemma tui_add_line_frame [simp]:
  "running (tui_add_line tb u t k st) = running st"
  "g_tui_enabled (tui_add_line tb u t k st) = g_tui_enabled st"
  by (simp_all add: tui_add_line_def tui_add_line_locked_def tui_set_dirty_def Let_def)

lemma tui_set_dirty_add_line [simp]:
  "tui_set_dirty (tui_add_line tb u t k st) = tui_add_line tb u t k st"
  by (simp add: tui_add_line_def tui_set_dirty_def Let_def)

lemma tui_add_line_running_upd:
  "tui_add_line tb u t k (st\<lparr>running := b\<rparr>) = (tui_add_line tb u t k st)\<lparr>running := b\<rparr>"
  by (simp add: tui_add_line_def tui_add_line_locked_def tui_set_dirty_def Let_def)

lemma tui_add_lines_running_upd:
  "tui_add_lines xs (st\<lparr>running := b\<rparr>) = (tui_add_lines xs st)\<lparr>running := b\<rparr>"
  by (induction xs arbitrary: st) (auto simp add: tui_add_line_running_upd)

lemma tui_add_lines_append:
  "tui_add_lines (xs @ ys) st = tui_add_lines ys (tui_add_lines xs st)"
  by (induction xs arbitrary: st) auto

lemma body_tui_frame:
  assumes "g_tui_enabled st" "0 < r" "\<not> (has_last \<and> msg = last_msg)"
  shows "receive_messages_body fmt r e msg last_msg has_last st =
         (Continue, (msg, True),
          (tui_add_lines [frame_line_args fmt msg] st)
            \<lparr>running := running st \<and> \<not> is_disconnect msg\<rparr>)"
  using assms
  by (auto simp add: receive_messages_body_def frame_line_args_def is_disconnect_def Let_def
      MESSAGE_RECV_def SYSTEM_def DISCONNECT_def tui_add_line_def tui_add_line_locked_def tui_set_dirty_def)
lemma full_read_eof:
  assumes "perform_full_read (Some msg) n w = (r, b, w')" "src_data (snd w) = []"
    "\<not> src_broken (snd w)" "0 < n"
  shows "r = 0"
proof -
  from perform_full_read_post [OF assms(1)] obtain buf' where
    "full_read_post n msg 0 (src_data (snd w)) (src_broken (snd w)) (r, buf', w')" by blast
  then show ?thesis using assms(2-4) by (simp add: full_read_post_def)
qed

lemma full_read_frame:
  assumes "perform_full_read (Some msg) n w = (r, b, w')" "src_data (snd w) = f @ rest"
    "length f = n" "length msg = n"
  shows "r = int n \<and> b = Some f \<and> src_data (snd w') = rest \<and>
         src_broken (snd w') = src_broken (snd w)"
proof -
  from perform_full_read_post [OF assms(1)] obtain buf' where
    b: "b = Some buf'" and
    "full_read_post n msg 0 (src_data (snd w)) (src_broken (snd w)) (r, buf', w')" by blast
  then show ?thesis using assms(2-4) by (simp add: full_read_post_def store_def)
qed

lemma receive_loop_stopped:
  "\<not> running st \<Longrightarrow> receive_messages_loop fmt msg last_msg has_last st w = (st, w)"
  by (simp add: receive_messages_loop.simps)

lemma receive_loop_frames:
  assumes "\<forall>f\<in>set frames. length f = sizeof_message_t" "length msg = sizeof_message_t"
    "src_data (snd w) = concat frames" "\<not> src_broken (snd w)" "g_tui_enabled st" "running st"
  shows "fst (receive_messages_loop fmt msg last_msg has_last st w) =
         (tui_add_lines
            (map (frame_line_args fmt) (rx_accept (if has_last then Some last_msg else None) frames)
             @ (if rx_eof (if has_last then Some last_msg else None) frames
                then [eof_line_args] else [])) st)\<lparr>running := False\<rparr>"
  using assms
proof (induction frames arbitrary: msg last_msg has_last st w)
  case Nil
  obtain r b w' where p: "perform_full_read (Some msg) sizeof_message_t w = (r, b, w')"
    by (cases "perform_full_read (Some msg) sizeof_message_t w")
  have "r = 0"
    using full_read_eof [OF p] Nil.prems by (simp add: sizeof_message_t_def)
  then show ?case
    using Nil.prems p
    by (simp add: receive_messages_loop.simps [of fmt msg last_msg has_last st w]
        receive_messages_body_def eof_line_args_def)
next
  case (Cons f fs)
  let ?prev = "if has_last then Some last_msg else None"
  obtain r b w' where p: "perform_full_read (Some msg) sizeof_message_t w = (r, b, w')"
    by (cases "perform_full_read (Some msg) sizeof_message_t w")
  have lf: "length f = sizeof_message_t" using Cons.prems(1) by simp
  have fr: "r = int sizeof_message_t" "b = Some f" "src_data (snd w') = concat fs"
    "\<not> src_broken (snd w')"
    using full_read_frame [OF p, of f "concat fs"] Cons.prems lf by simp_all
  have rpos: "0 < r" using fr(1) by (simp add: sizeof_message_t_def)
  have fs: "\<forall>f\<in>set fs. length f = sizeof_message_t" using Cons.prems(1) by simp
  show ?case
  proof (cases "has_last \<and> f = last_msg")
    case True
    have body: "receive_messages_body fmt r (fst w') f last_msg has_last st =
                (Continue, (last_msg, has_last), st)"
      using True rpos by (simp add: receive_messages_body_def)
    have "receive_messages_loop fmt msg last_msg has_last st w =
          receive_messages_loop fmt f last_msg has_last st w'"
      using Cons.prems(6) p fr(2) body
      by (simp add: receive_messages_loop.simps [of fmt msg last_msg has_last st w])
    then show ?thesis
      using Cons.IH [OF fs lf fr(3) fr(4) Cons.prems(5) Cons.prems(6), where last_msg = last_msg and has_last = has_last]
        True by simp
  next
    case False
    let ?st' = "(tui_add_lines [frame_line_args fmt f] st)
                  \<lparr>running := running st \<and> \<not> is_disconnect f\<rparr>"
    have body: "receive_messages_body fmt r (fst w') f last_msg has_last st =
                (Continue, (f, True), ?st')"
      using body_tui_frame [OF Cons.prems(5) rpos, of has_last f last_msg fmt "fst w'"] False
      by blast
    have step: "receive_messages_loop fmt msg last_msg has_last st w =
          receive_messages_loop fmt f f True ?st' w'"
      using Cons.prems(6) p fr(2) body
      by (simp add: receive_messages_loop.simps [of fmt msg last_msg has_last st w])
    have prev: "?prev \<noteq> Some f" using False by auto
    show ?thesis
    proof (cases "is_disconnect f")
      case True
      have "\<not> running ?st'" using True by simp
      then have "receive_messages_loop fmt f f True ?st' w' = (?st', w')"
        by (rule receive_loop_stopped)
      then show ?thesis
        using step True prev by (cases "frame_line_args fmt f") simp
    next
      case nd: False
      have run: "running ?st'" "g_tui_enabled ?st'"
        using nd Cons.prems(5,6) by (cases "frame_line_args fmt f"; simp)+
      have st': "?st' = tui_add_lines [frame_line_args fmt f] st"
        using nd Cons.prems(6) by (cases "frame_line_args fmt f") simp
      from Cons.IH [OF fs lf fr(3) fr(4) run(2) run(1), where last_msg = f and has_last = True]
      show ?thesis
        using step nd prev unfolding st'
        by (simp add: tui_add_lines_append [symmetric] del: tui_add_lines.simps)
    qed
  qed
qed

section \<open>The full-read primitive\<close>

text \<open>
  Claim C8. For every \<open>n\<close>, every buffer and every script of chunks, interrupts and
  failures, the full-read loop terminates (it is a total function) and returns
  \<^item> \<open>n\<close>, with the first \<open>n\<close> bytes of the stream at the start of the buffer and the rest
    of the stream left unread, when the stream delivers \<open>n\<close> bytes before it fails or ends,
    however the bytes are chunked and however many reads are interrupted;
  \<^item> \<open>-1\<close> with \<open>errno\<close> other than \<open>EINTR\<close> when a read fails before that;
  \<^item> the number of bytes the stream had, fewer than \<open>n\<close>, when the stream ended before
    that (the script is used up: \<open>read\<close> returned 0).
  \<open>perform_full_read\<close> on a non-NULL buffer is the same function, and an interrupted
  read is retried: the call goes on as if the interrupt had not been there.
\<close>

theorem full_read_contract:
  "(case full_read buf n (e, src) of (r, buf', w') \<Rightarrow>
      buf' = store buf 0 (take n (src_data src)) \<and>
      (if n \<le> length (src_data src)
       then r = int n \<and> src_data (snd w') = drop n (src_data src) \<and>
            src_broken (snd w') = src_broken src
       else if src_broken src then r = - 1 \<and> fst w' = EIO
       else r = int (length (src_data src)) \<and> snd w' = [])) \<and>
   perform_full_read (Some buf) n (e, src) =
     (case full_read buf n (e, src) of (r, buf', w') \<Rightarrow> (r, Some buf', w')) \<and>
   full_read buf (Suc n) (e, Interrupted # src) = full_read buf (Suc n) (EINTR, src)"
proof -
  have a: "full_read_post n buf 0 (src_data src) (src_broken src) (full_read buf n (e, src))"
    using full_read_post_loop [of 0 n buf "(e, src)"] by (simp add: full_read_def)
  have b: "full_read buf (Suc n) (e, Interrupted # src) = full_read buf (Suc n) (EINTR, src)"
    by (simp add: full_read_def
        perform_full_read_loop.simps [of "Suc n" buf 0 "(e, Interrupted # src)"])
  show ?thesis
    using a b
    by (auto simp add: full_read_post_def perform_full_read_def full_read_def
        split: prod.splits if_splits)
qed

theorem full_read_contract_witness:
  "fst (perform_full_read (Some ''......'') 4
     (ENONE, [Data ''a'', Interrupted, Data ''b'', Data [], Data ''cde''])) = 4 \<and>
   fst (snd (perform_full_read (Some ''......'') 4
     (ENONE, [Data ''a'', Interrupted, Data ''b'', Data [], Data ''cde'']))) = Some ''abcd..'' \<and>
   fst (perform_full_read (Some ''......'') 4 (ENONE, [Data ''a'', Data ''b''])) = 2 \<and>
   fst (perform_full_read (Some ''......'') 4 (ENONE, [Data ''a'', Broken, Data ''bcd''])) = - 1"
  using full_read_contract [where buf = "''......''" and n = 4 and e = ENONE
      and src = "[Data ''a'', Interrupted, Data ''b'', Data [], Data ''cde'']"]
    full_read_contract [where buf = "''......''" and n = 4 and e = ENONE
      and src = "[Data ''a'', Data ''b'']"]
    full_read_contract [where buf = "''......''" and n = 4 and e = ENONE
      and src = "[Data ''a'', Broken, Data ''bcd'']"]
  by (simp add: store_def split: prod.splits)

section \<open>The receive loop of clientOp.c (receive_thread)\<close>

text \<open>
  The globals of clientOp.c: \<open>settings.running\<close>, \<open>got_disconnect\<close>, \<open>settings.quiet\<close>,
  \<open>settings.username\<close>; the buffers handed to \<open>full_write\<close> and the script of their
  outcomes; what was printed.
\<close>

record op_state =
  op_running :: bool
  got_disconnect :: bool
  op_quiet :: bool
  op_username :: string
  op_sock_out :: "byte list list"
  op_wr_script :: "bool list"
  op_printed :: "print_t list"

definition op_print :: "print_t \<Rightarrow> op_state \<Rightarrow> op_state" where
  "op_print p st = st\<lparr>op_printed := op_printed st @ [p]\<rparr>"

text \<open>
  The body of \<open>while (settings.running)\<close> in \<open>receive_thread\<close>, after \<open>full_read\<close>
  returned \<open>r\<close>. \<open>msg.username[31] = 0\<close> and \<open>msg.message[1023] = 0\<close> are the bytes 39 and
  1063 of the buffer. There is no duplicate guard in this client.
\<close>

definition receive_thread_body ::
  "(nat \<Rightarrow> byte list) \<Rightarrow> int \<Rightarrow> errno_t \<Rightarrow> byte list \<Rightarrow> op_state \<Rightarrow>
   loop_ctl \<times> byte list \<times> op_state" where
  "receive_thread_body fmt r errno msg st =
     (if r < 0 then
        (if errno = EINTR then (Continue, msg, st)
         else (Break, msg, (op_print (PrintError ''read from server failed'') st)
                 \<lparr>op_running := False\<rparr>))
      else if r = 0 then (Break, msg, st\<lparr>op_running := False\<rparr>)
      else if r \<noteq> int sizeof_message_t then
        (Break, msg, (op_print (PrintError ''protocol short read'') st)\<lparr>op_running := False\<rparr>)
      else
        (let msg1 = msg[8 + 31 := NUL, 40 + 1023 := NUL];
             mt = msg_m_type msg1
         in if int mt = MESSAGE_RECV then
              (Continue, msg1,
               op_print (PrintMsg (cstr (fmt (msg_timeStamp msg1))) (cstr (msg_username msg1))
                 (cstr (msg_message msg1))) st)
            else if int mt = SYSTEM then
              (Continue, msg1, op_print (PrintSystem (cstr (msg_message msg1))) st)
            else if int mt = DISCONNECT then
              (Break, msg1,
               (op_print (PrintDisconnect (cstr (msg_message msg1))) st)
                 \<lparr>got_disconnect := True, op_running := False\<rparr>)
            else (Continue, msg1, st)))"

lemma receive_thread_body_Continue:
  "receive_thread_body fmt r errno msg st = (Continue, m, st') \<Longrightarrow>
     (r < 0 \<and> errno = EINTR) \<or> 0 < r"
  by (auto simp add: receive_thread_body_def Let_def split: if_splits)

lemma full_read_progress:
  assumes "full_read buf n w = (r, b, w')"
    and "(r < 0 \<and> fst w' = EINTR) \<or> 0 < r"
  shows "length (src_data (snd w')) < length (src_data (snd w))"
proof -
  have "full_read_post n buf 0 (src_data (snd w)) (src_broken (snd w)) (r, b, w')"
    using full_read_post_loop [of 0 n buf w] assms(1) by (simp add: full_read_def)
  then show ?thesis
    using assms(2) by (auto simp add: full_read_post_def split: if_splits)
qed

function receive_thread_loop ::
  "(nat \<Rightarrow> byte list) \<Rightarrow> byte list \<Rightarrow> op_state \<Rightarrow> world \<Rightarrow> op_state \<times> world" where
  "receive_thread_loop fmt msg st w =
     (if op_running st then
        (case full_read msg sizeof_message_t w of
           (r, msg', w') \<Rightarrow>
             (case receive_thread_body fmt r (fst w') msg' st of
                (Break, m, st') \<Rightarrow> (st', w')
              | (Continue, m, st') \<Rightarrow> receive_thread_loop fmt m st' w'))
      else (st, w))"
  by pat_completeness auto
termination
proof (relation "measure (\<lambda>(fmt, msg, st, w). length (src_data (snd w)))")
  show "wf (measure (\<lambda>(fmt, msg, st, w). length (src_data (snd w))))"
    by simp
next
  fix fmt :: "nat \<Rightarrow> byte list" and msg xa xc :: "byte list" and st yc :: op_state
    and w ya :: world and x :: int and y :: "byte list \<times> world" and xb :: loop_ctl
    and yb :: "byte list \<times> op_state"
  assume a: "(x, y) = full_read msg sizeof_message_t w" "(xa, ya) = y"
    "(xb, yb) = receive_thread_body fmt x (fst ya) xa st" "xb = Continue" "(xc, yc) = yb"
  have r: "full_read msg sizeof_message_t w = (x, xa, ya)"
    using a(1,2) by simp
  have "receive_thread_body fmt x (fst ya) xa st = (Continue, xc, yc)"
    using a(3,4,5) by simp
  from receive_thread_body_Continue [OF this]
  have "length (src_data (snd ya)) < length (src_data (snd w))"
    by (rule full_read_progress [OF r])
  then show "((fmt, xc, yc, ya), fmt, msg, st, w)
          \<in> measure (\<lambda>(fmt, msg, st, w). length (src_data (snd w)))"
    by simp
qed

declare receive_thread_loop.simps [simp del]

text \<open>
  Building a frame as the clients do: a zeroed \<open>message_t\<close>, \<open>htonl\<close> of the kind and the
  time stamp, \<open>strncpy\<close> of the two strings with the last byte of each field forced to 0.
\<close>

definition htonl :: "nat \<Rightarrow> byte list" where
  "htonl k = [char_of (k div 16777216), char_of (k div 65536), char_of (k div 256), char_of k]"

definition pad_field :: "nat \<Rightarrow> byte list \<Rightarrow> byte list" where
  "pad_field n s = take (n - 1) (cstr s) @ replicate (n - length (take (n - 1) (cstr s))) NUL"

definition mk_message :: "nat \<Rightarrow> nat \<Rightarrow> byte list \<Rightarrow> byte list \<Rightarrow> byte list" where
  "mk_message m_type ts user body =
     htonl m_type @ htonl ts @ pad_field 32 user @ pad_field 1024 body"

definition zero_message :: "byte list" where
  "zero_message = replicate sizeof_message_t NUL"

definition no_clock :: "nat \<Rightarrow> byte list" where
  "no_clock t = ''00:00:00''"

definition op_init :: op_state where
  "op_init = \<lparr>op_running = True, got_disconnect = False, op_quiet = True,
     op_username = ''spartan'', op_sock_out = [], op_wr_script = [], op_printed = []\<rparr>"

lemma length_mk_message [simp]: "length (mk_message k ts u b) = 1064"
  by (simp add: mk_message_def htonl_def pad_field_def)

lemma msg_m_type_mk_message [simp]: "k < 256 \<Longrightarrow> msg_m_type (mk_message k ts u b) = k"
  by (simp add: msg_m_type_def ntohl_at_def mk_message_def htonl_def)

text \<open>What \<open>receive_thread\<close> prints for one full frame, and where it stops.\<close>

definition op_is_disconnect :: "byte list \<Rightarrow> bool" where
  "op_is_disconnect msg = (int (msg_m_type msg) = DISCONNECT)"

definition op_frame_prints :: "(nat \<Rightarrow> byte list) \<Rightarrow> byte list \<Rightarrow> print_t list" where
  "op_frame_prints fmt msg =
     (let msg1 = msg[8 + 31 := NUL, 40 + 1023 := NUL]; mt = msg_m_type msg1
      in if int mt = MESSAGE_RECV then
           [PrintMsg (cstr (fmt (msg_timeStamp msg1))) (cstr (msg_username msg1))
              (cstr (msg_message msg1))]
         else if int mt = SYSTEM then [PrintSystem (cstr (msg_message msg1))]
         else if int mt = DISCONNECT then [PrintDisconnect (cstr (msg_message msg1))]
         else [])"

definition op_until_disconnect :: "byte list list \<Rightarrow> byte list list" where
  "op_until_disconnect frames =
     takeWhile (\<lambda>f. \<not> op_is_disconnect f) frames
       @ take 1 (dropWhile (\<lambda>f. \<not> op_is_disconnect f) frames)"

lemma op_until_disconnect_Cons:
  "op_until_disconnect (f # fs) = (if op_is_disconnect f then [f] else f # op_until_disconnect fs)"
  by (simp add: op_until_disconnect_def)

lemma msg_m_type_patched [simp]:
  "msg_m_type (msg[39 := a, 1063 := b]) = msg_m_type msg"
  by (simp add: msg_m_type_def ntohl_at_def)

lemma op_body_frame:
  "receive_thread_body fmt (int sizeof_message_t) e f st =
     (if op_is_disconnect f then Break else Continue, f[8 + 31 := NUL, 40 + 1023 := NUL],
      if op_is_disconnect f
      then (st\<lparr>op_printed := op_printed st @ op_frame_prints fmt f\<rparr>)
             \<lparr>got_disconnect := True, op_running := False\<rparr>
      else st\<lparr>op_printed := op_printed st @ op_frame_prints fmt f\<rparr>)"
  by (auto simp add: receive_thread_body_def op_frame_prints_def op_is_disconnect_def Let_def
      op_print_def sizeof_message_t_def MESSAGE_RECV_def SYSTEM_def DISCONNECT_def)

lemma full_read_frame_op:
  assumes "full_read msg n w = (r, b, w')" "src_data (snd w) = f @ rest"
    "length f = n" "length msg = n"
  shows "r = int n \<and> b = f \<and> src_data (snd w') = rest \<and>
         src_broken (snd w') = src_broken (snd w)"
proof -
  have "full_read_post n msg 0 (src_data (snd w)) (src_broken (snd w)) (r, b, w')"
    using full_read_post_loop [of 0 n msg w] assms(1) by (simp add: full_read_def)
  then show ?thesis using assms(2-4) by (simp add: full_read_post_def store_def)
qed

lemma full_read_eof_op:
  assumes "full_read msg n w = (r, b, w')" "src_data (snd w) = []"
    "\<not> src_broken (snd w)" "0 < n"
  shows "r = 0"
proof -
  have "full_read_post n msg 0 (src_data (snd w)) (src_broken (snd w)) (r, b, w')"
    using full_read_post_loop [of 0 n msg w] assms(1) by (simp add: full_read_def)
  then show ?thesis using assms(2-4) by (simp add: full_read_post_def)
qed

lemma op_receive_frames:
  assumes "\<forall>f\<in>set frames. length f = sizeof_message_t" "length msg = sizeof_message_t"
    "src_data (snd w) = concat frames" "\<not> src_broken (snd w)" "op_running st"
  shows "op_printed (fst (receive_thread_loop fmt msg st w)) =
         op_printed st @ concat (map (op_frame_prints fmt) (op_until_disconnect frames))"
  using assms
proof (induction frames arbitrary: msg st w)
  case Nil
  obtain r b w' where p: "full_read msg sizeof_message_t w = (r, b, w')"
    by (cases "full_read msg sizeof_message_t w")
  have "r = 0"
    using full_read_eof_op [OF p] Nil.prems by (simp add: sizeof_message_t_def)
  then show ?case
    using Nil.prems p
    by (simp add: receive_thread_loop.simps [of fmt msg st w] receive_thread_body_def
        op_until_disconnect_def)
next
  case (Cons f fs)
  obtain r b w' where p: "full_read msg sizeof_message_t w = (r, b, w')"
    by (cases "full_read msg sizeof_message_t w")
  have lf: "length f = sizeof_message_t" using Cons.prems(1) by simp
  have fr: "r = int sizeof_message_t" "b = f" "src_data (snd w') = concat fs"
    "\<not> src_broken (snd w')"
    using full_read_frame_op [OF p, of f "concat fs"] Cons.prems lf by simp_all
  have fs: "\<forall>f\<in>set fs. length f = sizeof_message_t" using Cons.prems(1) by simp
  let ?m = "f[8 + 31 := NUL, 40 + 1023 := NUL]"
  let ?st' = "st\<lparr>op_printed := op_printed st @ op_frame_prints fmt f\<rparr>"
  show ?case
  proof (cases "op_is_disconnect f")
    case True
    then show ?thesis
      using Cons.prems(5) p fr
      by (simp add: receive_thread_loop.simps [of fmt msg st w] op_body_frame
          op_until_disconnect_Cons)
  next
    case False
    have step: "receive_thread_loop fmt msg st w = receive_thread_loop fmt ?m ?st' w'"
      using Cons.prems(5) p fr False
      by (simp add: receive_thread_loop.simps [of fmt msg st w] op_body_frame)
    have "length ?m = sizeof_message_t" using lf by simp
    from Cons.IH [OF fs this fr(3) fr(4), where st = ?st'] Cons.prems(5)
    show ?thesis
      using step False by (simp add: op_until_disconnect_Cons)
  qed
qed

section \<open>The duplicate guard\<close>

lemma until_disconnect_Nil [simp]: "until_disconnect [] = []"
  by (simp add: until_disconnect_def)

lemma op_until_disconnect_Nil [simp]: "op_until_disconnect [] = []"
  by (simp add: op_until_disconnect_def)

lemma until_disconnect_has:
  "(\<exists>f\<in>set (until_disconnect fs). is_disconnect f) = (\<exists>f\<in>set fs. is_disconnect f)"
proof (induction fs)
  case Nil
  then show ?case by (simp add: until_disconnect_def)
next
  case (Cons f fs)
  then show ?case by (auto simp add: until_disconnect_Cons)
qed

lemma rx_eof_None: "rx_eof None fs = (\<not> (\<exists>f\<in>set fs. is_disconnect f))"
proof -
  have "rx_eof None fs = (\<not> (\<exists>f\<in>set (until_disconnect fs). is_disconnect f))"
    by (simp add: rx_eof_iff rx_accept_None)
  then show ?thesis by (simp only: until_disconnect_has)
qed

text \<open>
  The guard of client.c, lines 762 to 764 (clientAi.c has the same code). For every sequence
  of full inbound frames, however the stream is chunked, the TUI receive loop appends one
  display line per frame of \<open>remdups_adj\<close> of the sequence up to its first DISCONNECT
  frame: a frame equal to its predecessor appends nothing, a frame that differs from its
  predecessor appends its line even if it equals an earlier frame, and the loop then appends
  the end-of-stream line unless a DISCONNECT frame stopped it.
\<close>

lemma receive_loop_one_frame_lookback:
  assumes "\<forall>f\<in>set frames. length f = sizeof_message_t" and "length msg = sizeof_message_t"
    and "src_data src = concat frames" and "\<not> src_broken src"
    and "g_tui_enabled st" and "running st"
  shows "fst (receive_messages_loop fmt msg last_msg False st (e, src)) =
         (tui_add_lines
            (map (frame_line_args fmt) (remdups_adj (until_disconnect frames))
             @ (if \<exists>f\<in>set frames. is_disconnect f then [] else [eof_line_args])) st)
           \<lparr>running := False\<rparr>"
  using receive_loop_frames [of frames msg "(e, src)" st fmt last_msg False] assms
  by (simp add: rx_accept_None rx_eof_None)

lemma mk_message_neq: "mk_message 10 0 ''bob'' ''hi'' \<noteq> mk_message 10 0 ''bob'' ''yo''"
  by (simp add: mk_message_def pad_field_def cstr_def NUL_def)

lemma receive_loop_one_frame_lookback_example:
  "fst (receive_messages_loop no_clock zero_message zero_message False init_state
     (ENONE, [Data (mk_message 10 0 ''bob'' ''hi''), Data (mk_message 10 0 ''bob'' ''hi''),
              Data (mk_message 10 0 ''bob'' ''yo''), Data (mk_message 10 0 ''bob'' ''hi'')])) =
   (tui_add_lines
      [frame_line_args no_clock (mk_message 10 0 ''bob'' ''hi''),
       frame_line_args no_clock (mk_message 10 0 ''bob'' ''yo''),
       frame_line_args no_clock (mk_message 10 0 ''bob'' ''hi''),
       eof_line_args] init_state)\<lparr>running := False\<rparr>"
proof -
  let ?a = "mk_message 10 0 ''bob'' ''hi''" and ?b = "mk_message 10 0 ''bob'' ''yo''"
  have nd: "\<not> is_disconnect ?a" "\<not> is_disconnect ?b"
    by (simp_all add: is_disconnect_def DISCONNECT_def to_int32_def)
  have h: "\<forall>f\<in>set [?a, ?a, ?b, ?a]. length f = sizeof_message_t"
    "length zero_message = sizeof_message_t"
    "src_data [Data ?a, Data ?a, Data ?b, Data ?a] = concat [?a, ?a, ?b, ?a]"
    "\<not> src_broken [Data ?a, Data ?a, Data ?b, Data ?a]"
    "g_tui_enabled init_state" "running init_state"
    by (simp_all add: sizeof_message_t_def zero_message_def init_state_def)
  have u: "until_disconnect [?a, ?a, ?b, ?a] = [?a, ?a, ?b, ?a]"
    using nd by (simp add: until_disconnect_Cons until_disconnect_def)
  have r: "remdups_adj [?a, ?a, ?b, ?a] = [?a, ?b, ?a]"
    using mk_message_neq by simp
  from receive_loop_one_frame_lookback [OF h, of no_clock zero_message ENONE]
  show ?thesis
    using nd u r by simp
qed

text \<open>The same pair of frames that \<open>receive_thread\<close> is given below, on client.c: one line.\<close>

lemma hi_frame_fields:
  "msg_username (mk_message 10 0 ''bob'' ''hi'') = ''bob'' @ replicate 29 NUL @ ''hi'' @ replicate 1022 NUL"
  "msg_message (mk_message 10 0 ''bob'' ''hi'') = ''hi'' @ replicate 1022 NUL"
  by (simp_all add: msg_username_def msg_message_def mk_message_def htonl_def pad_field_def
      cstr_def NUL_def)

lemma receive_loop_drops_duplicate:
  "stored_lines (fst (receive_messages_loop no_clock zero_message zero_message False init_state
     (ENONE, [Data (mk_message 10 0 ''bob'' ''hi''), Data (mk_message 10 0 ''bob'' ''hi'')]))) =
   [\<lparr>line_timebuf = ''00:00:00'', line_username = ''bob'', line_text = ''hi'',
      line_kind = MESSAGE_RECV\<rparr>,
    \<lparr>line_timebuf = ''SYSTEM'', line_username = ''UNSC'',
      line_text = ''Server has disconnected'', line_kind = SYSTEM\<rparr>]"
proof -
  let ?a = "mk_message 10 0 ''bob'' ''hi''"
  have nd: "\<not> is_disconnect ?a"
    by (simp add: is_disconnect_def DISCONNECT_def to_int32_def)
  have h: "\<forall>f\<in>set [?a, ?a]. length f = sizeof_message_t"
    "length zero_message = sizeof_message_t"
    "src_data [Data ?a, Data ?a] = concat [?a, ?a]"
    "\<not> src_broken [Data ?a, Data ?a]"
    "g_tui_enabled init_state" "running init_state"
    by (simp_all add: sizeof_message_t_def zero_message_def init_state_def)
  have u: "until_disconnect [?a, ?a] = [?a, ?a]"
    using nd by (simp add: until_disconnect_Cons until_disconnect_def)
  from receive_loop_one_frame_lookback [OF h, of no_clock zero_message ENONE]
  have "fst (receive_messages_loop no_clock zero_message zero_message False init_state
          (ENONE, [Data ?a, Data ?a])) =
        (tui_add_lines [frame_line_args no_clock ?a, eof_line_args] init_state)
          \<lparr>running := False\<rparr>"
    using nd u by (simp del: tui_add_lines.simps)
  then have a: "stored_lines (fst (receive_messages_loop no_clock zero_message zero_message
          False init_state (ENONE, [Data ?a, Data ?a]))) =
        stored_lines (tui_add_lines [frame_line_args no_clock ?a, eof_line_args] init_state)"
    by (simp del: tui_add_lines.simps)
  have b: "stored_lines (tui_add_lines [frame_line_args no_clock ?a, eof_line_args] init_state) =
        map line_of_args [frame_line_args no_clock ?a, eof_line_args]"
    by (rule stored_lines_from_init) (simp add: TUI_MAX_LINES_def)
  have f: "frame_line_args no_clock ?a =
      (Some ''00:00:00'', Some (msg_username ?a), Some (msg_message ?a), MESSAGE_RECV)"
    by (simp add: frame_line_args_def to_int32_def MESSAGE_RECV_def no_clock_def Let_def)
  have c: "line_of_args (frame_line_args no_clock ?a) =
        \<lparr>line_timebuf = ''00:00:00'', line_username = ''bob'', line_text = ''hi'',
           line_kind = MESSAGE_RECV\<rparr>"
    unfolding f hi_frame_fields
    by (simp add: line_of_args_def fill_line_def strncpy_field_def cstr_def NUL_def)
  have d: "line_of_args eof_line_args =
        \<lparr>line_timebuf = ''SYSTEM'', line_username = ''UNSC'',
           line_text = ''Server has disconnected'', line_kind = SYSTEM\<rparr>"
    by (simp add: line_of_args_def fill_line_def eof_line_args_def strncpy_field_def cstr_def
        NUL_def)
  show ?thesis
    unfolding a b by (simp add: c d)
qed

lemma replicate_update_same: "(replicate n x)[i := x] = replicate n x"
  by (induction n arbitrary: i) (simp_all split: nat.splits)

lemma op_frame_prints_hi:
  "op_frame_prints no_clock (mk_message 10 0 ''bob'' ''hi'') =
     [PrintMsg ''00:00:00'' ''bob'' ''hi'']"
proof -
  let ?a = "mk_message 10 0 ''bob'' ''hi''"
  have p: "?a[8 + 31 := NUL, 40 + 1023 := NUL] = ?a"
    by (simp add: mk_message_def htonl_def pad_field_def cstr_def NUL_def list_update_append
        list_update_code replicate_update_same)
  show ?thesis
    unfolding op_frame_prints_def p Let_def hi_frame_fields
    by (simp add: MESSAGE_RECV_def no_clock_def cstr_def NUL_def)
qed

text \<open>
  Claim C5 on clientOp.c: \<open>receive_thread\<close> keeps no copy of the last frame and compares
  nothing, so the duplicate guard that both sibling loops implement is missing. Two
  byte-identical MESSAGE_RECV frames from the server are printed as two lines, where the
  claim demands one (and where client.c shows one, \<open>receive_loop_drops_duplicate\<close>).
\<close>

theorem op_receive_thread_prints_duplicates:
  "op_printed (fst (receive_thread_loop no_clock zero_message op_init
     (ENONE, [Data (mk_message 10 0 ''bob'' ''hi''), Data (mk_message 10 0 ''bob'' ''hi'')]))) =
   [PrintMsg ''00:00:00'' ''bob'' ''hi'', PrintMsg ''00:00:00'' ''bob'' ''hi'']"
proof -
  let ?f = "mk_message 10 0 ''bob'' ''hi''"
  have nd: "\<not> op_is_disconnect ?f"
    by (simp add: op_is_disconnect_def DISCONNECT_def)
  have "op_printed (fst (receive_thread_loop no_clock zero_message op_init
          (ENONE, [Data ?f, Data ?f]))) =
        op_printed op_init @ concat (map (op_frame_prints no_clock) (op_until_disconnect [?f, ?f]))"
    by (rule op_receive_frames)
      (simp_all add: sizeof_message_t_def zero_message_def op_init_def)
  then show ?thesis
    using nd by (simp add: op_until_disconnect_Cons op_init_def op_frame_prints_hi)
qed

section \<open>Short reads\<close>

lemma length_store:
  "off + length bs \<le> length buf \<Longrightarrow> length (store buf off bs) = length buf"
  by (simp add: store_def)

lemma full_read_short:
  assumes "perform_full_read (Some msg) n w = (r, b, w')" "\<not> src_broken (snd w)"
    "length (src_data (snd w)) < n"
  shows "r = int (length (src_data (snd w))) \<and> b = Some (store msg 0 (src_data (snd w))) \<and>
         snd w' = []"
proof -
  from perform_full_read_post [OF assms(1)] obtain buf' where
    b: "b = Some buf'" and
    "full_read_post n msg 0 (src_data (snd w)) (src_broken (snd w)) (r, buf', w')" by blast
  then show ?thesis using assms(2-3) by (simp add: full_read_post_def)
qed

lemma short_read_is_displayed:
  assumes "0 < length (src_data src)" "length (src_data src) < sizeof_message_t"
    "\<not> src_broken src" "length msg = sizeof_message_t"
    "g_tui_enabled st" "running st" "\<not> is_disconnect (store msg 0 (src_data src))"
  shows "fst (receive_messages_loop fmt msg last_msg False st (e, src)) =
         (tui_add_lines [frame_line_args fmt (store msg 0 (src_data src)), eof_line_args] st)
           \<lparr>running := False\<rparr>"
proof -
  let ?m = "store msg 0 (src_data src)"
  obtain r b w' where p: "perform_full_read (Some msg) sizeof_message_t (e, src) = (r, b, w')"
    by (cases "perform_full_read (Some msg) sizeof_message_t (e, src)")
  have fr: "r = int (length (src_data src))" "b = Some ?m" "snd w' = []"
    using full_read_short [OF p] assms(2,3) by simp_all
  have rpos: "0 < r" using fr(1) assms(1) by simp
  let ?st' = "(tui_add_lines [frame_line_args fmt ?m] st)
                \<lparr>running := running st \<and> \<not> is_disconnect ?m\<rparr>"
  have body: "receive_messages_body fmt r (fst w') ?m last_msg False st =
              (Continue, (?m, True), ?st')"
    using body_tui_frame [OF assms(5) rpos, of False ?m last_msg fmt "fst w'"] by simp
  have step: "receive_messages_loop fmt msg last_msg False st (e, src) =
              receive_messages_loop fmt ?m ?m True ?st' w'"
    using assms(6) p fr(2) body
    by (simp add: receive_messages_loop.simps [of fmt msg last_msg False st "(e, src)"])
  have st': "?st' = tui_add_lines [frame_line_args fmt ?m] st"
    using assms(6,7) by (cases "frame_line_args fmt ?m") simp
  have lm: "length ?m = sizeof_message_t"
    using assms(2,4) by (simp add: length_store)
  have run: "g_tui_enabled (tui_add_lines [frame_line_args fmt ?m] st)"
    "running (tui_add_lines [frame_line_args fmt ?m] st)"
    using assms(5,6) by (cases "frame_line_args fmt ?m"; simp)+
  have "fst (receive_messages_loop fmt ?m ?m True (tui_add_lines [frame_line_args fmt ?m] st) w') =
        (tui_add_lines [eof_line_args] (tui_add_lines [frame_line_args fmt ?m] st))
          \<lparr>running := False\<rparr>"
    using receive_loop_frames [of "[]" ?m w' "tui_add_lines [frame_line_args fmt ?m] st" fmt ?m True]
      lm fr(3) run by simp
  then show ?thesis
    using step unfolding st'
    by (simp add: tui_add_lines_append [symmetric] del: tui_add_lines.simps)
qed

text \<open>The first ten bytes of a MESSAGE_RECV frame from a user whose name starts with \<open>ev\<close>.\<close>

definition short_frame :: "byte list" where
  "short_frame = htonl 10 @ htonl 0 @ ''ev''"

lemma store_zero_short:
  "store zero_message 0 short_frame = short_frame @ replicate 1054 NUL"
  by (simp add: store_def zero_message_def short_frame_def htonl_def sizeof_message_t_def)

text \<open>
  Claim C3 on client.c: \<open>receive_messages_thread\<close> has no test for a short count. Ten bytes
  followed by end of stream are laid over the zeroed buffer, decoded and appended to the
  display buffer as a MESSAGE_RECV line from \<open>ev\<close>; the client stops only at the next read,
  which returns 0. (clientOp.c tests \<open>r != sizeof(msg)\<close>, see \<open>op_short_read_is_fatal\<close>.)
\<close>

theorem short_read_shown_as_frame:
  "stored_lines (fst (receive_messages_loop no_clock zero_message zero_message False init_state
     (ENONE, [Data short_frame]))) =
   [\<lparr>line_timebuf = ''00:00:00'', line_username = ''ev'', line_text = [],
      line_kind = MESSAGE_RECV\<rparr>,
    \<lparr>line_timebuf = ''SYSTEM'', line_username = ''UNSC'',
      line_text = ''Server has disconnected'', line_kind = SYSTEM\<rparr>]"
proof -
  let ?m = "short_frame @ replicate 1054 NUL"
  have mt: "msg_m_type ?m = 10"
    by (simp add: msg_m_type_def ntohl_at_def short_frame_def htonl_def)
  have nd: "\<not> is_disconnect (store zero_message 0 (src_data [Data short_frame]))"
    using mt by (simp add: store_zero_short is_disconnect_def to_int32_def DISCONNECT_def)
  have "fst (receive_messages_loop no_clock zero_message zero_message False init_state
          (ENONE, [Data short_frame])) =
        (tui_add_lines [frame_line_args no_clock
           (store zero_message 0 (src_data [Data short_frame])), eof_line_args] init_state)
          \<lparr>running := False\<rparr>"
    by (rule short_read_is_displayed)
      (use nd in \<open>simp_all add: short_frame_def htonl_def sizeof_message_t_def init_state_def
         zero_message_def\<close>)
  then have a: "stored_lines (fst (receive_messages_loop no_clock zero_message zero_message
          False init_state (ENONE, [Data short_frame]))) =
        stored_lines (tui_add_lines [frame_line_args no_clock ?m, eof_line_args] init_state)"
    by (simp add: store_zero_short del: tui_add_lines.simps)
  have b: "stored_lines (tui_add_lines [frame_line_args no_clock ?m, eof_line_args] init_state) =
        map line_of_args [frame_line_args no_clock ?m, eof_line_args]"
    by (rule stored_lines_from_init) (simp add: TUI_MAX_LINES_def)
  have f: "frame_line_args no_clock ?m =
      (Some ''00:00:00'', Some (msg_username ?m), Some (msg_message ?m), MESSAGE_RECV)"
    using mt by (simp add: frame_line_args_def to_int32_def MESSAGE_RECV_def no_clock_def Let_def)
  have u: "strncpy_field 32 (Some (msg_username ?m)) = ''ev''"
    by (simp add: strncpy_field_def msg_username_def cstr_def short_frame_def htonl_def NUL_def)
  have t: "strncpy_field 1024 (Some (msg_message ?m)) = []"
    by (simp add: strncpy_field_def msg_message_def cstr_def short_frame_def htonl_def)
  have c: "line_of_args (frame_line_args no_clock ?m) =
        \<lparr>line_timebuf = ''00:00:00'', line_username = ''ev'', line_text = [],
           line_kind = MESSAGE_RECV\<rparr>"
    unfolding f by (simp add: line_of_args_def fill_line_def u t)
      (simp add: strncpy_field_def cstr_def NUL_def)
  have d: "line_of_args eof_line_args =
        \<lparr>line_timebuf = ''SYSTEM'', line_username = ''UNSC'',
           line_text = ''Server has disconnected'', line_kind = SYSTEM\<rparr>"
    by (simp add: line_of_args_def fill_line_def eof_line_args_def strncpy_field_def cstr_def
        NUL_def)
  show ?thesis
    unfolding a b by (simp add: c d)
qed

lemma op_short_read_is_fatal:
  assumes "0 < length (src_data src)" "length (src_data src) < sizeof_message_t"
    "\<not> src_broken src" "op_running st"
  shows "fst (receive_thread_loop fmt msg st (e, src)) =
         (op_print (PrintError ''protocol short read'') st)\<lparr>op_running := False\<rparr>"
proof -
  obtain r b w' where p: "full_read msg sizeof_message_t (e, src) = (r, b, w')"
    by (cases "full_read msg sizeof_message_t (e, src)")
  have "full_read_post sizeof_message_t msg 0 (src_data src) (src_broken src) (r, b, w')"
    using full_read_post_loop [of 0 sizeof_message_t msg "(e, src)"] p
    by (simp add: full_read_def)
  then have r: "r = int (length (src_data src))"
    using assms(2,3) by (simp add: full_read_post_def)
  show ?thesis
    using assms p r
    by (simp add: receive_thread_loop.simps [of fmt msg st "(e, src)"] receive_thread_body_def)
qed

section \<open>The input loop of the terminal UI (client.c, tui_loop_send)\<close>

text \<open>\<open>strcmp(s, lit) == 0\<close> on C strings.\<close>

definition streq :: "byte list \<Rightarrow> string \<Rightarrow> bool" where
  "streq s lit = (cstr s = lit)"

text \<open>
  \<open>is_ascii_printable_strict\<close>: the loop \<open>for (i = 0; s[i]; i++)\<close> stops at the terminator
  (or at the end of the modelled bytes), rejecting byte 27 and every byte outside 32..126.
\<close>

fun is_ascii_printable_strict :: "byte list \<Rightarrow> bool" where
  "is_ascii_printable_strict [] = True"
| "is_ascii_printable_strict (c # cs) =
     (if c = NUL then True
      else if of_char c = (27::nat) then False
      else if of_char c < (32::nat) \<or> (126::nat) < of_char c then False
      else is_ascii_printable_strict cs)"

definition is_local_command :: "byte list \<Rightarrow> bool" where
  "is_local_command s =
     (streq s ''!disconnect'' \<or> streq s ''!disconect'' \<or> streq s ''!gravemind'' \<or>
      streq s ''!spartan'' \<or> streq s ''!help'')"

definition run_local_command :: "byte list \<Rightarrow> client_state \<Rightarrow> client_state" where
  "run_local_command s st =
     (if streq s ''!help'' then
        (if g_tui_enabled st
         then tui_add_line (Some ''SYSTEM'') (Some ''HELP'')
                (Some ''Commands: !help !gravemind !spartan !disconnect'') SYSTEM st
         else print_line (PrintInfo ''Commands: !help !gravemind !spartan !disconnect'') st)
      else if streq s ''!gravemind'' then
        (let st1 = st\<lparr>g_ui_mode := UI_GRAVEMIND\<rparr>;
             st2 = (if g_tui_enabled st1
                    then tui_add_line (Some ''SYSTEM'') (Some ''GRAVEMIND'')
                           (Some ''Switching to Gravemind interface...'') SYSTEM st1
                    else st1)
         in tui_set_dirty st2)
      else if streq s ''!spartan'' then
        (let st1 = st\<lparr>g_ui_mode := UI_SPARTAN\<rparr>;
             st2 = (if g_tui_enabled st1
                    then tui_add_line (Some ''SYSTEM'') (Some ''UNSC'')
                           (Some ''Switching to Spartan interface...'') SYSTEM st1
                    else st1)
         in tui_set_dirty st2)
      else if streq s ''!disconnect'' \<or> streq s ''!disconect'' then st\<lparr>running := False\<rparr>
      else st)"

definition tui_input_clear :: "client_state \<Rightarrow> client_state" where
  "tui_input_clear st = st\<lparr>g_input := []\<rparr>"

definition tui_input_set :: "byte list \<Rightarrow> client_state \<Rightarrow> client_state" where
  "tui_input_set s st = st\<lparr>g_input := take 1023 (cstr s)\<rparr>"

text \<open>
  \<open>tui_hist_push\<close> on the history as the list of its \<open>g_send_hist_len\<close> entries: nothing
  for an empty string or a repeat of the newest entry, else append, dropping the oldest
  entry when \<open>HIST_MAX\<close> are stored.
\<close>

definition tui_hist_push :: "byte list \<Rightarrow> string list \<Rightarrow> string list" where
  "tui_hist_push s hist =
     (if cstr s = [] then hist
      else if 0 < length hist \<and> hist ! (length hist - 1) = cstr s then hist
      else if length hist < HIST_MAX then hist @ [take 1023 (cstr s)]
      else tl hist @ [take 1023 (cstr s)])"

text \<open>
  \<open>write(settings.socket_fd, buf, sizeof(message_t))\<close>: the buffer is recorded in
  \<open>sock_out\<close>; the result says whether the call returned a positive count.
\<close>

definition sock_write :: "byte list \<Rightarrow> client_state \<Rightarrow> bool \<times> client_state" where
  "sock_write buf st =
     (case wr_script st of
        [] \<Rightarrow> (True, st\<lparr>sock_out := sock_out st @ [buf]\<rparr>)
      | ok # rest \<Rightarrow> (ok, st\<lparr>sock_out := sock_out st @ [buf], wr_script := rest\<rparr>))"

text \<open>
  The terminal: each \<open>tui_try_read_byte\<close> meets a byte or its timeout. When the script is
  used up nothing more arrives.
\<close>

datatype key_event = Key byte | Timeout

fun tui_try_read_byte :: "key_event list \<Rightarrow> byte option \<times> key_event list" where
  "tui_try_read_byte [] = (None, [])"
| "tui_try_read_byte (Timeout # ks) = (None, ks)"
| "tui_try_read_byte (Key c # ks) = (Some c, ks)"

text \<open>
  The ENTER branch of \<open>tui_loop_send\<close>; \<open>hist_idx\<close> is the local history cursor. The frame
  is a zeroed \<open>message_t\<close> with kind MESSAGE_SENT (2) and \<open>strncpy\<close> of \<open>g_input\<close>.
\<close>

definition tui_enter :: "int \<Rightarrow> client_state \<Rightarrow> int \<times> client_state" where
  "tui_enter hist_idx st =
     (if length (g_input st) = 0 then (hist_idx, tui_set_dirty st)
      else if is_local_command (g_input st) then
        (let st1 = tui_input_clear (run_local_command (g_input st) st)
         in (int (length (g_send_hist st1)), tui_set_dirty st1))
      else
        (let too_long = (1023 < length (g_input st));
             st1 = (if too_long
                    then tui_add_line (Some ''SYSTEM'') (Some ''ERROR'')
                           (Some ''Message is too long to send'') SYSTEM st
                    else st);
             empty = (length (g_input st) = 0);
             not_ascii = (\<not> is_ascii_printable_strict (g_input st));
             st2 = (if not_ascii
                    then tui_add_line (Some ''SYSTEM'') (Some ''ERROR'')
                           (Some ''Cannot send non-ASCII characters'') SYSTEM st1
                    else st1);
             flag = (too_long \<or> empty \<or> not_ascii);
             sent = (if \<not> flag then
                       (case sock_write (mk_message 2 0 [] (g_input st)) st2 of
                          (False, st3) \<Rightarrow>
                            (hist_idx,
                             (tui_add_line (Some ''SYSTEM'') (Some ''ERROR'')
                                (Some ''Write error - connection lost'') SYSTEM st3)
                               \<lparr>running := False\<rparr>)
                        | (True, st3) \<Rightarrow>
                            (let st4 = st3\<lparr>g_send_hist :=
                                   tui_hist_push (g_input st) (g_send_hist st3)\<rparr>
                             in (int (length (g_send_hist st4)), st4)))
                     else (hist_idx, st2))
         in (fst sent, tui_set_dirty (tui_input_clear (snd sent)))))"

text \<open>
  The ESC branch: two more reads of 10 ms each; \<open>ESC [ A\<close> and \<open>ESC [ B\<close> scroll when the
  edit buffer is empty and walk the history otherwise. \<open>hist_up\<close> and \<open>hist_down\<close> are the
  two updates of \<open>hist_idx\<close>.
\<close>

definition hist_up :: "int \<Rightarrow> int \<Rightarrow> int" where
  "hist_up hist_idx len = (if 0 < len \<and> 0 < hist_idx then hist_idx - 1 else hist_idx)"

definition hist_down :: "int \<Rightarrow> int \<Rightarrow> int" where
  "hist_down hist_idx len = (if hist_idx < len then hist_idx + 1 else hist_idx)"

definition tui_escape ::
  "int \<Rightarrow> client_state \<Rightarrow> key_event list \<Rightarrow> int \<times> client_state \<times> key_event list" where
  "tui_escape hist_idx st ks =
     (case tui_try_read_byte ks of
        (None, ks1) \<Rightarrow> (hist_idx, st, ks1)
      | (Some s1, ks1) \<Rightarrow>
          (case tui_try_read_byte ks1 of
             (None, ks2) \<Rightarrow> (hist_idx, st, ks2)
           | (Some s2, ks2) \<Rightarrow>
               (let len = int (length (g_send_hist st)) in
                if s1 = CHR ''['' then
                  (if s2 = CHR ''A'' then
                     (if length (g_input st) = 0
                      then (hist_idx, tui_set_dirty (st\<lparr>g_scroll := g_scroll st + 1\<rparr>), ks2)
                      else
                        (let h = hist_up hist_idx len
                         in if 0 \<le> h \<and> h < len
                            then (h, tui_set_dirty (tui_input_set (g_send_hist st ! nat h) st), ks2)
                            else (h, st, ks2)))
                   else if s2 = CHR ''B'' then
                     (if length (g_input st) = 0
                      then (hist_idx,
                            tui_set_dirty (if 0 < g_scroll st
                                           then st\<lparr>g_scroll := g_scroll st - 1\<rparr> else st), ks2)
                      else
                        (let h = hist_down hist_idx len
                         in (h,
                             tui_set_dirty
                               (if h = len then tui_input_clear st
                                else if 0 \<le> h \<and> h < len
                                then tui_input_set (g_send_hist st ! nat h) st
                                else st), ks2)))
                   else (hist_idx, st, ks2))
                else (hist_idx, st, ks2))))"

text \<open>
  One iteration of \<open>while (settings.running)\<close>: the redraw clears the dirty flag
  (\<open>tui_render\<close> changes nothing else), then one byte is read and dispatched.
\<close>

definition tui_loop_body ::
  "int \<Rightarrow> client_state \<Rightarrow> key_event list \<Rightarrow> int \<times> client_state \<times> key_event list" where
  "tui_loop_body hist_idx st ks =
     (let st0 = (if g_tui_dirty st then st\<lparr>g_tui_dirty := False\<rparr> else st)
      in case tui_try_read_byte ks of
           (None, ks1) \<Rightarrow> (hist_idx, st0, ks1)
         | (Some c, ks1) \<Rightarrow>
             if c = CHR 0x0A \<or> c = CHR 0x0D then
               (case tui_enter hist_idx st0 of (h, st1) \<Rightarrow> (h, st1, ks1))
             else if of_char c = (127::nat) \<or> of_char c = (8::nat) then
               (hist_idx,
                if 0 < length (g_input st0)
                then tui_set_dirty (st0\<lparr>g_input := butlast (g_input st0)\<rparr>) else st0,
                ks1)
             else if of_char c = (27::nat) then tui_escape hist_idx st0 ks1
             else if (32::nat) \<le> of_char c \<and> of_char c \<le> (126::nat) then
               (hist_idx,
                if length (g_input st0) < 1023
                then tui_set_dirty (st0\<lparr>g_input := g_input st0 @ [c]\<rparr>) else st0,
                ks1)
             else (hist_idx, st0, ks1))"

lemma tui_try_read_byte_length:
  "ks \<noteq> [] \<Longrightarrow> length (snd (tui_try_read_byte ks)) < length ks"
  "length (snd (tui_try_read_byte ks)) \<le> length ks"
  by (induction ks rule: tui_try_read_byte.induct) auto

lemma tui_escape_length:
  "length (snd (snd (tui_escape h st ks))) \<le> length ks"
proof -
  have "length (snd (tui_try_read_byte (snd (tui_try_read_byte ks)))) \<le> length ks"
    using tui_try_read_byte_length(2) [of ks]
      tui_try_read_byte_length(2) [of "snd (tui_try_read_byte ks)"] by linarith
  then show ?thesis
    using tui_try_read_byte_length(2) [of ks]
    by (auto simp add: tui_escape_def Let_def split: prod.splits option.splits)
qed

lemma tui_loop_body_length:
  assumes "ks \<noteq> []"
  shows "length (snd (snd (tui_loop_body h st ks))) < length ks"
proof -
  obtain c ks1 where r: "tui_try_read_byte ks = (c, ks1)" by (cases "tui_try_read_byte ks")
  have l: "length ks1 < length ks"
    using tui_try_read_byte_length(1) [OF assms] r by simp
  have e: "length (snd (snd (tui_escape h' st' ks1))) < length ks" for h' st'
    using tui_escape_length [of h' st' ks1] l by linarith
  show ?thesis
    using r l e
    by (auto simp add: tui_loop_body_def Let_def split: prod.splits option.splits)
qed

function tui_loop :: "int \<Rightarrow> client_state \<Rightarrow> key_event list \<Rightarrow> int \<times> client_state" where
  "tui_loop hist_idx st ks =
     (if running st \<and> ks \<noteq> [] then
        (case tui_loop_body hist_idx st ks of (h, st1, ks1) \<Rightarrow> tui_loop h st1 ks1)
      else (hist_idx, st))"
  by pat_completeness auto
termination
proof (relation "measure (\<lambda>(hist_idx, st, ks). length ks)")
  show "wf (measure (\<lambda>(hist_idx, st, ks). length ks))" by simp
next
  fix hist_idx x :: int and st xa :: client_state and ks ya :: "key_event list"
    and y :: "client_state \<times> key_event list"
  assume a: "running st \<and> ks \<noteq> []" "(x, y) = tui_loop_body hist_idx st ks" "(xa, ya) = y"
  have "tui_loop_body hist_idx st ks = (x, xa, ya)"
    using a(2,3) by simp
  then have "ya = snd (snd (tui_loop_body hist_idx st ks))"
    by simp
  then show "((x, xa, ya), hist_idx, st, ks) \<in> measure (\<lambda>(hist_idx, st, ks). length ks)"
    using tui_loop_body_length [of ks hist_idx st] a(1) by simp
qed

declare tui_loop.simps [simp del]

section \<open>The edit buffer holds printable bytes only\<close>

definition printable :: "byte \<Rightarrow> bool" where
  "printable c = ((32::nat) \<le> of_char c \<and> of_char c \<le> (126::nat))"








lemma list_all_nth: "list_all P xs \<Longrightarrow> i < length xs \<Longrightarrow> P (xs ! i)"
  by (simp add: list_all_length)


lemma edit_fields_add_line [simp]:
  "g_input (tui_add_line tb u t k st) = g_input st"
  "g_send_hist (tui_add_line tb u t k st) = g_send_hist st"
  by (simp_all add: tui_add_line_def tui_add_line_locked_def tui_set_dirty_def Let_def)

lemma edit_fields_set_dirty [simp]:
  "g_input (tui_set_dirty st) = g_input st"
  "g_send_hist (tui_set_dirty st) = g_send_hist st"
  by (simp_all add: tui_set_dirty_def)

lemma edit_fields_print_line [simp]:
  "g_input (print_line p st) = g_input st"
  "g_send_hist (print_line p st) = g_send_hist st"
  by (simp_all add: print_line_def)

lemma edit_fields_run_local_command [simp]:
  "g_input (run_local_command s st) = g_input st"
  "g_send_hist (run_local_command s st) = g_send_hist st"
  by (simp_all add: run_local_command_def Let_def)

lemma edit_fields_sock_write [simp]:
  "g_input (snd (sock_write buf st)) = g_input st"
  "g_send_hist (snd (sock_write buf st)) = g_send_hist st"
  by (simp_all add: sock_write_def split: list.splits)




lemma tui_escape_hist [simp]:
  "g_send_hist (fst (snd (tui_escape h st ks))) = g_send_hist st"
  by (auto simp add: tui_escape_def Let_def tui_input_clear_def tui_input_set_def
      split: prod.splits option.splits)


lemma tui_input_set_input [simp]: "g_input (tui_input_set s st) = take 1023 (cstr s)"
  by (simp add: tui_input_set_def)

lemma tui_input_clear_input [simp]: "g_input (tui_input_clear st) = []"
  by (simp add: tui_input_clear_def)







section \<open>Sending from the terminal UI\<close>






section \<open>The start menu, the plain input loop and the end of main (client.c)\<close>

text \<open>
  The start menu, the boot lines and \<open>tui_loop_send\<close> as a whole. A key script that ends
  while the start menu is still shown ends the modelled run there.
\<close>

fun handle_start_menu_input :: "client_state \<Rightarrow> key_event list \<Rightarrow> client_state \<times> key_event list" where
  "handle_start_menu_input st [] = (st, [])"
| "handle_start_menu_input st (k # ks) =
     (if g_show_start_menu st \<and> running st then
        (case k of
           Timeout \<Rightarrow> handle_start_menu_input st ks
         | Key c \<Rightarrow>
             if of_char c = (27::nat) then
               handle_start_menu_input
                 (st\<lparr>g_ui_mode := (if g_ui_mode st = UI_GRAVEMIND then UI_SPARTAN
                                     else UI_GRAVEMIND)\<rparr>) ks
             else if c = CHR 0x0A \<or> c = CHR 0x0D then
               (tui_set_dirty (st\<lparr>g_show_start_menu := False\<rparr>), ks)
             else if c = CHR ''q'' \<or> c = CHR ''Q'' then (st\<lparr>running := False\<rparr>, ks)
             else handle_start_menu_input st ks)
      else (st, k # ks))"

definition gravemind_boot_lines :: "client_state \<Rightarrow> client_state" where
  "gravemind_boot_lines st =
     tui_add_lines
       [(Some ''SYSTEM'', Some ''GRAVEMIND'', Some ''>>> NEURAL SIGNAL DETECTED'', SYSTEM),
        (Some ''SYSTEM'', Some ''GRAVEMIND'', Some ''>>> FLOOD SPORE INTEGRATION INITIATED'',
         SYSTEM),
        (Some ''SYSTEM'', Some ''GRAVEMIND'', Some ''>>> MEMORY BLEED CONFIRMED'', SYSTEM),
        (Some ''SYSTEM'', Some ''GRAVEMIND'', Some ''>>> CORRUPTION STABLE. SPREADING...'',
         SYSTEM),
        (Some ''SYSTEM'', Some ''GRAVEMIND'', Some ''I am a monument to all your sins.'', SYSTEM),
        (Some ''SYSTEM'', Some ''GRAVEMIND'', Some ''>>> GRAVEMIND NEURAL NETWORK ONLINE'',
         SYSTEM)] st"

definition spartan_boot_lines :: "client_state \<Rightarrow> client_state" where
  "spartan_boot_lines st =
     tui_add_lines
       [(Some ''SYSTEM'', Some ''UNSC'', Some ''>>> SPARTAN-III NEURAL INTERFACE INITIALIZED'',
         SYSTEM),
        (Some ''SYSTEM'', Some ''UNSC'', Some ''>>> MJOLNIR ARMOR SYSTEMS ONLINE'', SYSTEM),
        (Some ''SYSTEM'', Some ''UNSC'', Some ''>>> NEURAL LINK STABLE'', SYSTEM),
        (Some ''SYSTEM'', Some ''CORTANA'', Some ''I'll be with you every step of the way.'',
         SYSTEM),
        (Some ''SYSTEM'', Some ''UNSC'', Some ''>>> SPARTAN COMMUNICATIONS ONLINE'', SYSTEM)] st"

definition tui_loop_send :: "client_state \<Rightarrow> key_event list \<Rightarrow> client_state" where
  "tui_loop_send st ks =
     (let st0 = st\<lparr>g_tui_dirty := True\<rparr>
      in if g_tui_enabled st0 then
           (case handle_start_menu_input st0 ks of
              (st1, ks1) \<Rightarrow>
                if \<not> running st1 \<or> g_show_start_menu st1 then st1
                else
                  (let st2 = (if g_ui_mode st1 = UI_GRAVEMIND then gravemind_boot_lines st1
                              else spartan_boot_lines st1);
                       st3 = tui_set_dirty (tui_add_line (Some ''SYSTEM'') (Some ''SYSTEM'')
                               (Some ''Connected to server'') SYSTEM st2)
                   in snd (tui_loop (int (length (g_send_hist st3))) st3 ks1)))
         else snd (tui_loop (int (length (g_send_hist st0))) st0 ks))"

text \<open>
  The line-oriented input loop of \<open>main\<close> (no TUI): each \<open>getline\<close> returns a line or is
  interrupted (with the value of \<open>shutdown_requested\<close> at that moment); the end of the
  script is end of file. Then the cleanup at the end of \<open>main\<close>.
\<close>

datatype stdin_event = Line "byte list" | StdinEintr bool

definition main_stdin_body :: "stdin_event \<Rightarrow> client_state \<Rightarrow> loop_ctl \<times> client_state" where
  "main_stdin_body ev st =
     (case ev of
        StdinEintr shutdown_requested \<Rightarrow>
          if shutdown_requested
          then (Break, print_line (PrintError ''Shutting down gracefully'') st)
          else (Continue, st)
      | Line l \<Rightarrow>
          (let line = takeWhile (\<lambda>c. c \<noteq> CHR 0x0A) (cstr l) in
           if is_local_command line then
             (let st1 = run_local_command line st
              in if \<not> running st1 then (Break, st1) else (Continue, st1))
           else
             (let send = mk_message 2 0 [] line;
                  send_message = take 1023 (cstr line);
                  not_ascii = (\<not> is_ascii_printable_strict send_message);
                  st1 = (if not_ascii
                         then print_line (PrintError ''Error: Cannot send non-ASCII characters'') st
                         else st);
                  too_long = (1023 < length send_message);
                  st2 = (if too_long then print_line (PrintError ''Error: Message too long'') st1
                         else st1);
                  too_short = (length send_message = 0);
                  st3 = (if too_short then print_line (PrintError ''Error: Message too short'') st2
                         else st2)
              in if \<not> (not_ascii \<or> too_long \<or> too_short) then
                   (case sock_write send st3 of
                      (False, st4) \<Rightarrow> (Break, print_line (PrintError ''Write error'') st4)
                    | (True, st4) \<Rightarrow> (Continue, st4))
                 else (Continue, st3))))"

fun main_stdin_loop :: "stdin_event list \<Rightarrow> client_state \<Rightarrow> client_state" where
  "main_stdin_loop [] st =
     (if running st then print_line (PrintError ''EOF detected'') st else st)"
| "main_stdin_loop (ev # evs) st =
     (if running st then
        (case main_stdin_body ev st of
           (Break, st1) \<Rightarrow> st1
         | (Continue, st1) \<Rightarrow> main_stdin_loop evs st1)
      else st)"

text \<open>
  The cleanup: \<open>running = false\<close>, then the LOGOUT frame (kind 1, the user name, a fixed
  body) is written and the result of \<open>write\<close> is ignored.
\<close>

definition main_cleanup :: "client_state \<Rightarrow> client_state" where
  "main_cleanup st =
     (let st1 = st\<lparr>running := False\<rparr>;
          logout = mk_message 1 0 (settings_username st1) ''User has disconnected''
      in snd (sock_write logout st1))"

definition main_after_connect ::
  "key_event list \<Rightarrow> stdin_event list \<Rightarrow> client_state \<Rightarrow> client_state" where
  "main_after_connect ks evs st =
     main_cleanup (if g_tui_enabled st then tui_loop_send st ks else main_stdin_loop evs st)"

lemma is_ascii_printable_strict_replicate:
  "printable c \<Longrightarrow> is_ascii_printable_strict (replicate n c)"
  by (induction n) (auto simp add: printable_def NUL_def)

lemma takeWhile_replicate_stop:
  "P c \<Longrightarrow> \<not> P d \<Longrightarrow> takeWhile P (replicate n c @ d # ys) = replicate n c"
  by (induction n) simp_all

definition line_1024 :: "byte list" where
  "line_1024 = replicate 1024 (CHR ''a'') @ [CHR 0x0A]"

definition plain_state :: client_state where
  "plain_state = init_state\<lparr>g_tui_enabled := False\<rparr>"

text \<open>
  Claim C4 on client.c without TUI: the line is copied into \<open>send.message\<close> with
  \<open>strncpy(..., 1023)\<close> before the checks, so the test \<open>strlen(send.message) > 1023\<close> can
  never fire. A line of 1024 bytes \<open>a\<close> is not rejected: its first 1023 bytes are written to
  the socket as a MESSAGE_SENT frame and nothing is reported.
\<close>

theorem plain_client_sends_truncated_1024:
  "main_stdin_body (Line line_1024) plain_state =
     (Continue, plain_state\<lparr>sock_out := [mk_message 2 0 [] (replicate 1024 (CHR ''a''))]\<rparr>) \<and>
   mk_message 2 0 [] (replicate 1024 (CHR ''a'')) =
     mk_message 2 0 [] (replicate 1023 (CHR ''a''))"
proof -
  have c: "cstr line_1024 = line_1024"
    by (simp add: line_1024_def cstr_def NUL_def)
  have l: "takeWhile (\<lambda>c. c \<noteq> CHR 0x0A) line_1024 = replicate 1024 (CHR ''a'')"
    unfolding line_1024_def by (rule takeWhile_replicate_stop) simp_all
  have c2: "cstr (replicate 1024 (CHR ''a'')) = replicate 1024 (CHR ''a'')"
    by (simp add: cstr_def NUL_def)
  have nc: "\<not> is_local_command (replicate 1024 (CHR ''a''))"
    using c2 by (auto simp add: is_local_command_def streq_def dest!: arg_cong [where f = length])
  have p: "is_ascii_printable_strict (replicate 1023 (CHR ''a''))"
    by (rule is_ascii_printable_strict_replicate) (simp add: printable_def)
  have w: "sock_write buf plain_state = (True, plain_state\<lparr>sock_out := [buf]\<rparr>)" for buf
    by (simp add: sock_write_def plain_state_def init_state_def)
  have a: "main_stdin_body (Line line_1024) plain_state =
     (Continue, plain_state\<lparr>sock_out := [mk_message 2 0 [] (replicate 1024 (CHR ''a''))]\<rparr>)"
    using nc p by (simp add: main_stdin_body_def c l c2 w Let_def)
  have b: "mk_message 2 0 [] (replicate 1024 (CHR ''a'')) =
     mk_message 2 0 [] (replicate 1023 (CHR ''a''))"
    by (simp add: mk_message_def pad_field_def cstr_def NUL_def)
  show ?thesis using a b by simp
qed

text \<open>
  Claim C1 on client.c: the cleanup of \<open>main\<close> writes the LOGOUT frame unconditionally.
  After the receive loop has taken a DISCONNECT frame from the server (\<open>running\<close> is
  false), whatever the keyboard and standard input hold, \<open>main\<close> leaves its input loop and
  writes one LOGOUT frame.
\<close>

theorem logout_written_after_server_disconnect:
  "\<not> running (fst (receive_messages_loop no_clock zero_message zero_message False init_state
       (ENONE, [Data (mk_message 12 0 [] ''bye'')]))) \<and>
   sock_out (main_after_connect ks evs
     (fst (receive_messages_loop no_clock zero_message zero_message False init_state
       (ENONE, [Data (mk_message 12 0 [] ''bye'')])))) =
   [mk_message 1 0 ''spartan'' ''User has disconnected'']"
proof -
  let ?d = "mk_message 12 0 [] ''bye''"
  let ?st = "fst (receive_messages_loop no_clock zero_message zero_message False init_state
       (ENONE, [Data ?d]))"
  have d: "is_disconnect ?d"
    by (simp add: is_disconnect_def to_int32_def DISCONNECT_def)
  have h: "\<forall>f\<in>set [?d]. length f = sizeof_message_t" "length zero_message = sizeof_message_t"
    "src_data [Data ?d] = concat [?d]" "\<not> src_broken [Data ?d]"
    "g_tui_enabled init_state" "running init_state"
    by (simp_all add: sizeof_message_t_def zero_message_def init_state_def)
  have st: "?st = (tui_add_lines [frame_line_args no_clock ?d] init_state)\<lparr>running := False\<rparr>"
    using receive_loop_frames [where frames = "[?d]" and msg = zero_message
        and w = "(ENONE, [Data ?d])" and st = init_state and fmt = no_clock
        and last_msg = zero_message and has_last = False] h d
    by (simp del: tui_add_lines.simps)
  have r: "\<not> running ?st" unfolding st by simp
  have f: "g_tui_enabled ?st" "sock_out ?st = []" "wr_script ?st = []"
    "settings_username ?st = ''spartan''" "g_show_start_menu ?st"
    unfolding st
    by (cases "frame_line_args no_clock ?d";
        simp add: tui_add_line_def tui_add_line_locked_def tui_set_dirty_def Let_def
          init_state_def)+
  have m: "tui_loop_send ?st ks = ?st\<lparr>g_tui_dirty := True\<rparr>"
    using r f(1,5)
    by (cases ks) (simp_all add: tui_loop_send_def Let_def)
  have "sock_out (main_after_connect ks evs ?st) =
        [mk_message 1 0 ''spartan'' ''User has disconnected'']"
    using f by (simp add: main_after_connect_def m main_cleanup_def sock_write_def Let_def)
  then show ?thesis using r by simp
qed

section \<open>The main loop of clientOp.c\<close>

text \<open>
  \<open>msg_valid\<close>, the input loop of \<open>main\<close> and its cleanup, which sends LOGOUT only when
  \<open>got_disconnect\<close> is not set. \<open>full_write\<close> is taken as one step: the frame is recorded
  and the script says whether it returned 0.
\<close>

fun msg_valid_chars :: "byte list \<Rightarrow> bool" where
  "msg_valid_chars [] = True"
| "msg_valid_chars (c # cs) =
     (if of_char c < (32::nat) \<or> (126::nat) < of_char c then False else msg_valid_chars cs)"

definition msg_valid :: "byte list \<Rightarrow> bool" where
  "msg_valid s =
     (let L = length (cstr s)
      in if L = 0 \<or> 1023 < L then False else msg_valid_chars (cstr s))"

definition op_full_write :: "byte list \<Rightarrow> op_state \<Rightarrow> bool \<times> op_state" where
  "op_full_write buf st =
     (case op_wr_script st of
        [] \<Rightarrow> (True, st\<lparr>op_sock_out := op_sock_out st @ [buf]\<rparr>)
      | ok # rest \<Rightarrow> (ok, st\<lparr>op_sock_out := op_sock_out st @ [buf], op_wr_script := rest\<rparr>))"

definition op_main_body :: "stdin_event \<Rightarrow> op_state \<Rightarrow> loop_ctl \<times> op_state" where
  "op_main_body ev st =
     (case ev of
        StdinEintr shutdown_requested \<Rightarrow>
          if shutdown_requested then (Break, st) else (Continue, st)
      | Line l \<Rightarrow>
          (let line = takeWhile (\<lambda>c. c \<noteq> CHR 0x0A) (cstr l) in
           if streq line ''!disconnect'' \<or> streq line ''!disconect'' then (Break, st)
           else if \<not> msg_valid line then
             (Continue,
              if length (cstr line) = 0 then op_print (PrintError ''message too short'') st
              else if 1023 < length (cstr line) then op_print (PrintError ''message too long'') st
              else op_print (PrintError ''message contains non-printable ASCII'') st)
           else
             (case op_full_write (mk_message 2 0 [] line) st of
                (False, st1) \<Rightarrow> (Break, op_print (PrintError ''write() failed'') st1)
              | (True, st1) \<Rightarrow> (Continue, st1))))"

fun op_main_loop :: "stdin_event list \<Rightarrow> op_state \<Rightarrow> op_state" where
  "op_main_loop [] st = st"
| "op_main_loop (ev # evs) st =
     (if op_running st \<and> \<not> got_disconnect st then
        (case op_main_body ev st of
           (Break, st1) \<Rightarrow> st1
         | (Continue, st1) \<Rightarrow> op_main_loop evs st1)
      else st)"

definition op_main_cleanup :: "op_state \<Rightarrow> op_state" where
  "op_main_cleanup st =
     (let st1 = st\<lparr>op_running := False\<rparr>
      in if \<not> got_disconnect st1 then snd (op_full_write (mk_message 1 0 [] []) st1) else st1)"

definition op_main_after_connect :: "stdin_event list \<Rightarrow> op_state \<Rightarrow> op_state" where
  "op_main_after_connect evs st = op_main_cleanup (op_main_loop evs st)"

lemma op_no_logout_after_disconnect:
  "got_disconnect st \<Longrightarrow> op_sock_out (op_main_after_connect evs st) = op_sock_out st"
  by (cases evs) (simp_all add: op_main_after_connect_def op_main_cleanup_def)

lemma op_receive_disconnect_sets_flag:
  assumes "length f = sizeof_message_t" "op_is_disconnect f" "op_running st"
    "length msg = sizeof_message_t"
  shows "got_disconnect (fst (receive_thread_loop fmt msg st (e, Data f # src))) \<and>
         op_sock_out (fst (receive_thread_loop fmt msg st (e, Data f # src))) = op_sock_out st"
proof -
  obtain r b w' where p: "full_read msg sizeof_message_t (e, Data f # src) = (r, b, w')"
    by (cases "full_read msg sizeof_message_t (e, Data f # src)")
  have "full_read_post sizeof_message_t msg 0 (src_data (Data f # src))
          (src_broken (Data f # src)) (r, b, w')"
    using full_read_post_loop [of 0 sizeof_message_t msg "(e, Data f # src)"] p
    by (simp add: full_read_def)
  then have fr: "r = int sizeof_message_t" "b = f"
    using assms(1,4) by (simp_all add: full_read_post_def store_def)
  show ?thesis
    using assms(2,3) p fr
    by (simp add: receive_thread_loop.simps [of fmt msg st "(e, Data f # src)"] op_body_frame)
qed

lemma op_logout_once_on_local_disconnect:
  assumes "op_running st" "\<not> got_disconnect st"
  shows "op_sock_out (op_main_after_connect (Line ''!disconnect\<newline>'' # evs) st) =
         op_sock_out st @ [mk_message 1 0 [] []]"
proof -
  have "op_main_body (Line ''!disconnect\<newline>'') st = (Break, st)"
    by (simp add: op_main_body_def streq_def cstr_def NUL_def Let_def)
  then show ?thesis
    using assms
    by (simp add: op_main_after_connect_def op_main_cleanup_def op_full_write_def Let_def
        split: list.splits)
qed

lemma msg_valid_chars_iff: "msg_valid_chars s = list_all printable s"
  by (induction s) (auto simp add: printable_def)

lemma msg_valid_iff:
  "msg_valid s = (cstr s \<noteq> [] \<and> length (cstr s) \<le> 1023 \<and> list_all printable (cstr s))"
  by (auto simp add: msg_valid_def msg_valid_chars_iff Let_def)

lemma not_printable_not_valid:
  assumes "c \<in> set (cstr s)" "\<not> printable c"
  shows "\<not> msg_valid s"
  using assms by (auto simp add: msg_valid_iff list_all_iff)

lemma msg_valid_examples:
  "msg_valid ''hello world''"
  "\<not> msg_valid []"
  "length (cstr s) = 1024 \<Longrightarrow> \<not> msg_valid s"
  "c \<in> set (cstr s) \<Longrightarrow> of_char c = (27::nat) \<Longrightarrow> \<not> msg_valid s"
  "c \<in> set (cstr s) \<Longrightarrow> of_char c < (32::nat) \<or> (126::nat) < of_char c \<Longrightarrow> \<not> msg_valid s"
proof -
  show "msg_valid ''hello world''"
    by (simp add: msg_valid_iff cstr_def NUL_def printable_def)
  show "\<not> msg_valid []"
    by (simp add: msg_valid_iff cstr_def)
  show "length (cstr s) = 1024 \<Longrightarrow> \<not> msg_valid s"
    by (simp add: msg_valid_iff)
  show "c \<in> set (cstr s) \<Longrightarrow> of_char c = (27::nat) \<Longrightarrow> \<not> msg_valid s"
    by (rule not_printable_not_valid) (auto simp add: printable_def)
  show "c \<in> set (cstr s) \<Longrightarrow> of_char c < (32::nat) \<or> (126::nat) < of_char c \<Longrightarrow> \<not> msg_valid s"
    by (rule not_printable_not_valid) (auto simp add: printable_def)
qed

lemma op_rejected_line_not_written:
  assumes "\<not> msg_valid (takeWhile (\<lambda>c. c \<noteq> CHR 0x0A) (cstr l))"
  shows "op_sock_out (snd (op_main_body (Line l) st)) = op_sock_out st \<and>
         op_running (snd (op_main_body (Line l) st)) = op_running st"
  using assms by (simp add: op_main_body_def Let_def op_print_def)

section \<open>Reachable states of the edit buffer\<close>

lemma edit_fields_add_lines [simp]:
  "g_input (tui_add_lines xs st) = g_input st"
  "g_send_hist (tui_add_lines xs st) = g_send_hist st"
  by (induction xs arbitrary: st) auto










end
